theory Spec2Isabelle
  imports Main "HOL-Library.Word" "HOL-Library.Sublist" "HOL-Library.Multiset"
begin

section \<open>Strings\<close>

text \<open>
  A JavaScript string is a sequence of UTF-16 code units; the regular expressions of
  \<^verbatim>\<open>src/utils/tags.ts\<close> carry no \<^verbatim>\<open>u\<close> flag, so they, \<^verbatim>\<open>slice\<close>, \<^verbatim>\<open>includes\<close> and
  \<^verbatim>\<open>length\<close> all work on code units. \<open>js\<close> writes an ASCII literal as such a string.
\<close>

type_synonym jschar = "16 word"
type_synonym jsstring = "jschar list"

definition js :: "string \<Rightarrow> jsstring" where
  "js s = map of_char s"

section \<open>The tag utilities (src/utils/tags.ts)\<close>

subsection \<open>The pattern \<^verbatim>\<open>/#([\w<U+AC00>-<U+D7A3>/]+)/g\<close>\<close>

text \<open>
  \<^verbatim>\<open>\w\<close> without the \<^verbatim>\<open>u\<close> and \<^verbatim>\<open>i\<close> flags is \<^verbatim>\<open>[A-Za-z0-9_]\<close>; the class adds the Hangul
  syllables U+AC00 to U+D7A3 and the slash.
\<close>

definition isWordChar :: "jschar \<Rightarrow> bool" where
  "isWordChar c \<longleftrightarrow>
     (0x41 \<le> c \<and> c \<le> 0x5A) \<or> (0x61 \<le> c \<and> c \<le> 0x7A) \<or> (0x30 \<le> c \<and> c \<le> 0x39) \<or> c = 0x5F"

definition isTagChar :: "jschar \<Rightarrow> bool" where
  "isTagChar c \<longleftrightarrow> isWordChar c \<or> (0xAC00 \<le> c \<and> c \<le> 0xD7A3) \<or> c = 0x2F"

text \<open>
  A match object: \<open>index\<close> is \<^verbatim>\<open>match.index\<close>, \<open>match0\<close> is \<^verbatim>\<open>match[0]\<close> (the whole token with
  its \<^verbatim>\<open>#\<close>) and \<open>match1\<close> is \<^verbatim>\<open>match[1]\<close> (the capture group).
\<close>

record RegExpMatch =
  index :: nat
  match0 :: jsstring
  match1 :: jsstring

text \<open>
  The pattern tried at one position \<open>i\<close> of \<open>s\<close>: a \<^verbatim>\<open>#\<close> (0x23) and then the longest
  non-empty run of class characters. Nothing follows the greedy \<^verbatim>\<open>+\<close> in the pattern, so
  no backtracking shortens the run. The result is the capture group.
\<close>

definition tag_match_at :: "jsstring \<Rightarrow> nat \<Rightarrow> jsstring option" where
  "tag_match_at s i =
     (case drop i s of
        [] \<Rightarrow> None
      | c # cs \<Rightarrow>
          (if c = 0x23 \<and> takeWhile isTagChar cs \<noteq> [] then Some (takeWhile isTagChar cs) else None))"

text \<open>
  The search of \<^verbatim>\<open>RegExpBuiltinExec\<close> for a global expression: from position \<open>i\<close> the
  pattern is tried at each position in turn; a position beyond the end of the string is
  the failure.
\<close>

function regex_search :: "jsstring \<Rightarrow> nat \<Rightarrow> RegExpMatch option" where
  "regex_search s i =
     (if length s < i then None
      else (case tag_match_at s i of
              Some g \<Rightarrow> Some \<lparr>index = i, match0 = 0x23 # g, match1 = g\<rparr>
            | None \<Rightarrow> regex_search s (Suc i)))"
  by pat_completeness auto
termination
  by (relation "measure (\<lambda>(s, i). Suc (length s) - i)") auto

declare regex_search.simps [simp del]

text \<open>
  \<^verbatim>\<open>regex.exec(s)\<close> on an expression whose \<^verbatim>\<open>lastIndex\<close> is the second argument: the result
  (\<open>None\<close> for \<^verbatim>\<open>null\<close>) and the new \<^verbatim>\<open>lastIndex\<close>, which is the end of the match, or 0
  after a failure.
\<close>

definition regex_exec :: "jsstring \<Rightarrow> nat \<Rightarrow> RegExpMatch option \<times> nat" where
  "regex_exec s lastIndex =
     (case regex_search s lastIndex of
        None \<Rightarrow> (None, 0)
      | Some m \<Rightarrow> (Some m, index m + length (match0 m)))"

lemma tag_match_at_Some:
  assumes "tag_match_at s i = Some g"
  shows "g \<noteq> [] \<and> i + length (0x23 # g) \<le> length s \<and> take (length (0x23 # g)) (drop i s) = 0x23 # g
         \<and> g = takeWhile isTagChar (drop (Suc i) s)"
proof -
  from assms obtain c cs where d: "drop i s = c # cs" and c: "c = 0x23"
    and g: "g = takeWhile isTagChar cs" and ne: "takeWhile isTagChar cs \<noteq> []"
    by (auto simp: tag_match_at_def split: list.splits if_splits)
  have cs: "cs = drop (Suc i) s"
    using d by (metis drop_Suc list.sel(3) tl_drop)
  have len: "length (drop i s) = Suc (length cs)" using d by simp
  have "length g \<le> length cs" unfolding g by (rule length_takeWhile_le)
  with len have b: "i + length (0x23 # g) \<le> length s" by simp
  have "take (length g) cs = g" unfolding g
    by (metis append_eq_conv_conj takeWhile_dropWhile_id)
  with d c have t: "take (length (0x23 # g)) (drop i s) = 0x23 # g" by simp
  from ne g b t cs show ?thesis by simp
qed

lemma regex_search_Some:
  "regex_search s i = Some m \<Longrightarrow>
     i \<le> index m \<and> match0 m = 0x23 # match1 m \<and> match1 m \<noteq> []
     \<and> index m + length (match0 m) \<le> length s
     \<and> take (length (match0 m)) (drop (index m) s) = match0 m
     \<and> tag_match_at s (index m) = Some (match1 m)"
proof (induction s i rule: regex_search.induct)
  case (1 s i)
  show ?case
  proof (cases "tag_match_at s i")
    case None
    with "1.prems" have le: "\<not> length s < i" and r: "regex_search s (Suc i) = Some m"
      by (auto simp: regex_search.simps [of s i] split: if_splits)
    from "1.IH" [OF le None r] show ?thesis by auto
  next
    case (Some g)
    with "1.prems" have m: "m = \<lparr>index = i, match0 = 0x23 # g, match1 = g\<rparr>"
      by (auto simp: regex_search.simps [of s i] split: if_splits)
    from tag_match_at_Some [OF Some] m Some show ?thesis by auto
  qed
qed

lemma regex_exec_Some:
  assumes "regex_exec s li = (Some m, li')"
  shows "li < li'" and "li' \<le> length s" and "li' = index m + length (match0 m)"
    and "li \<le> index m"
proof -
  from assms have r: "regex_search s li = Some m" and l: "li' = index m + length (match0 m)"
    by (auto simp: regex_exec_def split: option.splits)
  from regex_search_Some [OF r] l
  show "li < li'" "li' \<le> length s" "li' = index m + length (match0 m)" "li \<le> index m"
    by auto
qed

lemma regex_exec_decreases:
  "(Some m, li') = regex_exec s li \<Longrightarrow> Suc (length s) - li' < Suc (length s) - li"
  using regex_exec_Some(1,2) [of s li m li'] by simp

text \<open>
  \<^verbatim>\<open>s.matchAll(regex)\<close>: by \<^verbatim>\<open>RegExp.prototype[Symbol.matchAll]\<close> the iterator runs \<^verbatim>\<open>exec\<close>
  on a clone of the expression whose \<^verbatim>\<open>lastIndex\<close> is copied from the original, until
  \<^verbatim>\<open>exec\<close> returns \<^verbatim>\<open>null\<close>. The original expression is not changed. (Every match of this
  pattern is non-empty, so the iterator's extra step after an empty match never runs.)
\<close>

function matchAll :: "jsstring \<Rightarrow> nat \<Rightarrow> RegExpMatch list" where
  "matchAll s lastIndex =
     (case regex_exec s lastIndex of
        (None, _) \<Rightarrow> []
      | (Some m, lastIndex') \<Rightarrow> m # matchAll s lastIndex')"
  by pat_completeness auto
termination
  by (relation "measure (\<lambda>(s, i). Suc (length s) - i)")
     (auto intro: regex_exec_decreases)

declare matchAll.simps [simp del]

subsection \<open>parseTags and hasTags\<close>

text \<open>
  \<^verbatim>\<open>String.prototype.toLowerCase\<close> as it acts on a capture group, the only strings tags.ts
  lowers: among the characters of the class only A to Z have a lower-case mapping.
\<close>

definition toLowerUnit :: "jschar \<Rightarrow> jschar" where
  "toLowerUnit c = (if 0x41 \<le> c \<and> c \<le> 0x5A then c + 0x20 else c)"

definition toLowerCase :: "jsstring \<Rightarrow> jsstring" where
  "toLowerCase s = map toLowerUnit s"

text \<open>
  A JavaScript \<^verbatim>\<open>Set\<close> of strings keeps its elements in insertion order and \<^verbatim>\<open>add\<close> leaves
  a set that has the element as it is: the set is the list of its elements in that
  order, which is also what \<^verbatim>\<open>Array.from\<close> returns.
\<close>

definition Set_add :: "'a list \<Rightarrow> 'a \<Rightarrow> 'a list" where
  "Set_add s x = (if x \<in> set s then s else s @ [x])"

text \<open>
  \<open>TAG_REGEX\<close> is one module-level object with the global flag, so its \<^verbatim>\<open>lastIndex\<close> is
  module state: the first argument of \<open>parseTags\<close> and \<open>hasTags\<close>. It is 0 when the module
  is loaded. \<open>parseTags\<close> reads it (through \<^verbatim>\<open>matchAll\<close>) and leaves it; \<open>hasTags\<close> calls
  \<^verbatim>\<open>TAG_REGEX.test\<close>, which is \<^verbatim>\<open>exec\<close> compared with \<^verbatim>\<open>null\<close>, and returns the new
  \<^verbatim>\<open>lastIndex\<close> beside its result.
\<close>

definition parseTags :: "nat \<Rightarrow> jsstring \<Rightarrow> jsstring list" where
  "parseTags TAG_REGEX_lastIndex content =
     (let matches = matchAll content TAG_REGEX_lastIndex;
          tags = fold (\<lambda>m tags. Set_add tags (toLowerCase (match1 m))) matches []
      in tags)"

definition hasTags :: "nat \<Rightarrow> jsstring \<Rightarrow> bool \<times> nat" where
  "hasTags TAG_REGEX_lastIndex content =
     (case regex_exec content TAG_REGEX_lastIndex of (r, lastIndex') \<Rightarrow> (r \<noteq> None, lastIndex'))"

subsection \<open>parseContentWithTags\<close>

datatype PartType = TextPart | TagPart

record ContentPart =
  ptype :: PartType
  pcontent :: jsstring
  ptag :: "jsstring option"

text \<open>\<^verbatim>\<open>s.slice(a, b)\<close> for indices that are not negative; it is empty when \<open>b \<le> a\<close>.\<close>

definition slice :: "jsstring \<Rightarrow> nat \<Rightarrow> nat \<Rightarrow> jsstring" where
  "slice s a b = take (b - a) (drop a s)"

text \<open>
  The \<^verbatim>\<open>while\<close> loop of \<open>parseContentWithTags\<close>. Its state is the \<^verbatim>\<open>lastIndex\<close> of the
  expression the function creates, the variable \<^verbatim>\<open>lastIndex\<close> and the array \<^verbatim>\<open>parts\<close>; it
  returns the last two when \<^verbatim>\<open>exec\<close> returns \<^verbatim>\<open>null\<close>.
\<close>

function parse_loop :: "jsstring \<Rightarrow> nat \<Rightarrow> nat \<Rightarrow> ContentPart list \<Rightarrow> ContentPart list \<times> nat" where
  "parse_loop content regex_lastIndex lastIndex parts =
     (case regex_exec content regex_lastIndex of
        (None, _) \<Rightarrow> (parts, lastIndex)
      | (Some m, regex_lastIndex') \<Rightarrow>
          parse_loop content regex_lastIndex' (index m + length (match0 m))
            ((if lastIndex < index m
              then parts @ [\<lparr>ptype = TextPart, pcontent = slice content lastIndex (index m), ptag = None\<rparr>]
              else parts)
             @ [\<lparr>ptype = TagPart, pcontent = match0 m, ptag = Some (toLowerCase (match1 m))\<rparr>]))"
  by pat_completeness auto
termination
  by (relation "measure (\<lambda>(s, i, l, p). Suc (length s) - i)")
     (auto intro: regex_exec_decreases)

declare parse_loop.simps [simp del]

definition parseContentWithTags :: "jsstring \<Rightarrow> ContentPart list" where
  "parseContentWithTags content =
     (case parse_loop content 0 0 [] of
        (parts, lastIndex) \<Rightarrow>
          (if lastIndex < length content
           then parts @ [\<lparr>ptype = TextPart, pcontent = drop lastIndex content, ptag = None\<rparr>]
           else parts))"

subsection \<open>The tag tokens of a text, as the specification describes them\<close>

text \<open>
  The specification's token: a \<^verbatim>\<open>#\<close> immediately followed by one or more characters of
  the class, matched greedily, the text read from left to right. \<open>tag_tokens\<close> lists the
  tokens of a text without their \<^verbatim>\<open>#\<close>; \<open>first_occurrences\<close> keeps the first occurrence
  of every element of a list.
\<close>

function tag_tokens :: "jsstring \<Rightarrow> jsstring list" where
  "tag_tokens [] = []"
| "tag_tokens (c # cs) =
     (if c = 0x23 \<and> takeWhile isTagChar cs \<noteq> []
      then takeWhile isTagChar cs # tag_tokens (dropWhile isTagChar cs)
      else tag_tokens cs)"
  by pat_completeness auto
termination
  by (relation "measure length") (auto simp: less_Suc_eq_le length_dropWhile_le)

fun first_occurrences :: "'a list \<Rightarrow> 'a list" where
  "first_occurrences [] = []"
| "first_occurrences (x # xs) = x # first_occurrences (filter (\<lambda>y. y \<noteq> x) xs)"

section \<open>The data model (src/types)\<close>

text \<open>
  An optional field of an interface is an \<open>option\<close>: \<open>None\<close> is the absent field
  (\<^verbatim>\<open>undefined\<close>). Timestamps are what \<^verbatim>\<open>Date.now()\<close> returns, whole milliseconds. The
  \<^verbatim>\<open>id\<close> and \<^verbatim>\<open>createdAt\<close> fields of the three interfaces carry a prefix here, since a
  record field is one constant.
\<close>

record Server =
  s_id :: jsstring
  s_name :: jsstring
  icon :: "jsstring option"
  s_createdAt :: int

record Channel =
  c_id :: jsstring
  serverId :: jsstring
  c_name :: jsstring
  c_createdAt :: int

record Message =
  m_id :: jsstring
  channelId :: jsstring
  content :: jsstring
  createdAt :: int
  editedAt :: "int option"
  tags :: "jsstring list option"
  isPinned :: "bool option"
  isBookmarked :: "bool option"

record SearchResult =
  message :: Message
  channel :: Channel
  server :: Server

text \<open>
  \<open>StorageData\<close> is the object that is serialized to and parsed from storage.
  \<^verbatim>\<open>JSON.parse(raw) as StorageData\<close> checks nothing, so at run time each of the four fields
  may be absent; the objects the store builds have all four.
\<close>

record StorageData =
  data_servers :: "Server list option"
  data_channels :: "Channel list option"
  data_messages :: "Message list option"
  data_version :: "int option"

section \<open>The store (src/store)\<close>

record AppStore =
  servers :: "Server list"
  channels :: "Channel list"
  messages :: "Message list"
  selectedServerId :: "jsstring option"
  selectedChannelId :: "jsstring option"
  searchQuery :: jsstring
  isSearchOpen :: bool
  selectedTag :: "jsstring option"
  isBookmarkPanelOpen :: bool

definition initialStore :: AppStore where
  "initialStore =
     \<lparr>servers = [], channels = [], messages = [], selectedServerId = None,
      selectedChannelId = None, searchQuery = [], isSearchOpen = False, selectedTag = None,
      isBookmarkPanelOpen = False\<rparr>"

text \<open>
  Every mutating action runs \<^verbatim>\<open>set((state) => { ...; saveData({...}); return updated })\<close>.
  Its model takes the state and returns the state with \<^verbatim>\<open>updated\<close> merged in, paired
  with the object it hands to \<^verbatim>\<open>saveData\<close>. What \<^verbatim>\<open>uuidv4()\<close> and \<^verbatim>\<open>Date.now()\<close> return
  are arguments \<open>uuid\<close> and \<open>now\<close>; an argument that shares its name with a field is
  primed.
\<close>

definition saved :: "Server list \<Rightarrow> Channel list \<Rightarrow> Message list \<Rightarrow> StorageData" where
  "saved ss cs ms =
     \<lparr>data_servers = Some ss, data_channels = Some cs, data_messages = Some ms, data_version = Some 1\<rparr>"

definition addChannel :: "jsstring \<Rightarrow> int \<Rightarrow> jsstring \<Rightarrow> jsstring \<Rightarrow> AppStore \<Rightarrow> AppStore \<times> StorageData" where
  "addChannel uuid now serverId' name' state =
     (let newChannel = \<lparr>c_id = uuid, serverId = serverId', c_name = name', c_createdAt = now\<rparr>;
          updated = channels state @ [newChannel]
      in (state\<lparr>channels := updated\<rparr>, saved (servers state) updated (messages state)))"

definition deleteServer :: "jsstring \<Rightarrow> AppStore \<Rightarrow> AppStore \<times> StorageData" where
  "deleteServer id' state =
     (let channelIds = map c_id (filter (\<lambda>c. serverId c = id') (channels state));
          updated_servers = filter (\<lambda>s. s_id s \<noteq> id') (servers state);
          updated_channels = filter (\<lambda>c. serverId c \<noteq> id') (channels state);
          updated_messages = filter (\<lambda>m. \<not> (channelId m \<in> set channelIds)) (messages state);
          updated_selectedServerId =
            (if selectedServerId state = Some id' then None else selectedServerId state);
          updated_selectedChannelId =
            (if (case selectedChannelId state of None \<Rightarrow> [] | Some x \<Rightarrow> x) \<in> set channelIds
             then None else selectedChannelId state)
      in (state\<lparr>servers := updated_servers, channels := updated_channels,
                messages := updated_messages, selectedServerId := updated_selectedServerId,
                selectedChannelId := updated_selectedChannelId\<rparr>,
          saved updated_servers updated_channels updated_messages))"

text \<open>\<^verbatim>\<open>tags.length > 0 ? tags : undefined\<close>\<close>

definition tagsField :: "jsstring list \<Rightarrow> jsstring list option" where
  "tagsField ts = (if length ts > 0 then Some ts else None)"

definition addMessage ::
  "nat \<Rightarrow> jsstring \<Rightarrow> int \<Rightarrow> jsstring \<Rightarrow> jsstring \<Rightarrow> AppStore \<Rightarrow> AppStore \<times> StorageData" where
  "addMessage TAG_REGEX_lastIndex uuid now channelId' content' state =
     (let tags' = parseTags TAG_REGEX_lastIndex content';
          newMessage =
            \<lparr>m_id = uuid, channelId = channelId', content = content', createdAt = now,
             editedAt = None, tags = tagsField tags', isPinned = None, isBookmarked = None\<rparr>;
          updated = messages state @ [newMessage]
      in (state\<lparr>messages := updated\<rparr>, saved (servers state) (channels state) updated))"

definition updateMessage ::
  "nat \<Rightarrow> int \<Rightarrow> jsstring \<Rightarrow> jsstring \<Rightarrow> AppStore \<Rightarrow> AppStore \<times> StorageData" where
  "updateMessage TAG_REGEX_lastIndex now id' content' state =
     (let tags' = parseTags TAG_REGEX_lastIndex content';
          updated =
            map (\<lambda>m. if m_id m = id'
                      then m\<lparr>content := content', editedAt := Some now, tags := tagsField tags'\<rparr>
                      else m)
              (messages state)
      in (state\<lparr>messages := updated\<rparr>, saved (servers state) (channels state) updated))"

text \<open>The truth value of an optional boolean: \<^verbatim>\<open>undefined\<close> and \<^verbatim>\<open>false\<close> are falsy.\<close>

definition truthy :: "bool option \<Rightarrow> bool" where
  "truthy b = (b = Some True)"

definition togglePin :: "jsstring \<Rightarrow> AppStore \<Rightarrow> AppStore \<times> StorageData" where
  "togglePin id' state =
     (let updated =
            map (\<lambda>m. if m_id m = id' then m\<lparr>isPinned := Some (\<not> truthy (isPinned m))\<rparr> else m)
              (messages state)
      in (state\<lparr>messages := updated\<rparr>, saved (servers state) (channels state) updated))"

definition toggleBookmark :: "jsstring \<Rightarrow> AppStore \<Rightarrow> AppStore \<times> StorageData" where
  "toggleBookmark id' state =
     (let updated =
            map (\<lambda>m. if m_id m = id' then m\<lparr>isBookmarked := Some (\<not> truthy (isBookmarked m))\<rparr> else m)
              (messages state)
      in (state\<lparr>messages := updated\<rparr>, saved (servers state) (channels state) updated))"

subsection \<open>Sorting\<close>

text \<open>
  \<^verbatim>\<open>Array.prototype.sort\<close> with a comparator is stable. The comparators of the store are
  differences of two integer timestamps, which order the elements by a total preorder;
  the stable arrangement by such a comparator is unique, and insertion from the right
  end computes it.
\<close>

fun insert_sorted :: "('a \<Rightarrow> 'a \<Rightarrow> int) \<Rightarrow> 'a \<Rightarrow> 'a list \<Rightarrow> 'a list" where
  "insert_sorted cmp x [] = [x]"
| "insert_sorted cmp x (y # ys) = (if cmp x y \<le> 0 then x # y # ys else y # insert_sorted cmp x ys)"

definition Array_sort :: "('a \<Rightarrow> 'a \<Rightarrow> int) \<Rightarrow> 'a list \<Rightarrow> 'a list" where
  "Array_sort cmp xs = foldr (insert_sorted cmp) xs []"

subsection \<open>Derived views\<close>

definition getPinnedMessages :: "AppStore \<Rightarrow> Message list" where
  "getPinnedMessages state =
     Array_sort (\<lambda>a b. createdAt a - createdAt b)
       (filter (\<lambda>m. truthy (isPinned m) \<and> Some (channelId m) = selectedChannelId state)
          (messages state))"

definition getBookmarkedMessages :: "AppStore \<Rightarrow> Message list" where
  "getBookmarkedMessages state =
     Array_sort (\<lambda>a b. createdAt b - createdAt a)
       (filter (\<lambda>m. truthy (isBookmarked m)) (messages state))"

text \<open>
  \<^verbatim>\<open>String.prototype.trim\<close> removes the white space and line terminator code points of
  ECMAScript from both ends; all of them are single code units.
\<close>

definition isWhiteSpace :: "jschar \<Rightarrow> bool" where
  "isWhiteSpace c \<longleftrightarrow>
     (0x09 \<le> c \<and> c \<le> 0x0D) \<or> c = 0x20 \<or> c = 0xA0 \<or> c = 0x1680 \<or> (0x2000 \<le> c \<and> c \<le> 0x200A)
     \<or> c = 0x2028 \<or> c = 0x2029 \<or> c = 0x202F \<or> c = 0x205F \<or> c = 0x3000 \<or> c = 0xFEFF"

definition trim :: "jsstring \<Rightarrow> jsstring" where
  "trim s = rev (dropWhile isWhiteSpace (rev (dropWhile isWhiteSpace s)))"

text \<open>\<^verbatim>\<open>s.includes(q)\<close>: \<open>q\<close> occurs in \<open>s\<close> as a run of consecutive code units.\<close>

fun String_includes :: "jsstring \<Rightarrow> jsstring \<Rightarrow> bool" where
  "String_includes [] q = (q = [])"
| "String_includes (c # cs) q = (prefix q (c # cs) \<or> String_includes cs q)"

text \<open>
  \<open>getSearchResults\<close> lowers the query and every content with
  \<^verbatim>\<open>String.prototype.toLowerCase\<close>, here on arbitrary text, where it is the full
  Unicode mapping. The mapping is the argument \<open>lower\<close>: what is proved of
  \<open>getSearchResults\<close> holds for every function in its place.
\<close>

definition getSearchResults :: "(jsstring \<Rightarrow> jsstring) \<Rightarrow> AppStore \<Rightarrow> SearchResult list" where
  "getSearchResults lower state =
     (let query = trim (lower (searchQuery state)) in
      if query = [] then []
      else
        Array_sort (\<lambda>a b. createdAt (message b) - createdAt (message a))
          (fold (\<lambda>m results.
                   if String_includes (lower (content m)) query
                   then (case find (\<lambda>c. c_id c = channelId m) (channels state) of
                           None \<Rightarrow> results
                         | Some ch \<Rightarrow>
                             (case find (\<lambda>s. s_id s = serverId ch) (servers state) of
                                None \<Rightarrow> results
                              | Some sv \<Rightarrow> results @ [\<lparr>message = m, channel = ch, server = sv\<rparr>]))
                   else results)
             (messages state) []))"

subsection \<open>Runs of message operations\<close>

text \<open>
  A run of \<open>addMessage\<close> and \<open>updateMessage\<close> calls, each with the identifier and the time
  it draws. Neither action writes \<open>TAG_REGEX.lastIndex\<close>, so one value serves the whole
  run.
\<close>

datatype MessageOp =
    AddMessage jsstring int jsstring jsstring
  | UpdateMessage int jsstring jsstring

fun apply_op :: "nat \<Rightarrow> MessageOp \<Rightarrow> AppStore \<Rightarrow> AppStore" where
  "apply_op li (AddMessage uuid now channelId' content') state =
     fst (addMessage li uuid now channelId' content' state)"
| "apply_op li (UpdateMessage now id' content') state =
     fst (updateMessage li now id' content' state)"

definition apply_ops :: "nat \<Rightarrow> MessageOp list \<Rightarrow> AppStore \<Rightarrow> AppStore" where
  "apply_ops li ops state = fold (apply_op li) ops state"

subsection \<open>Notions used to state the properties of the store\<close>

text \<open>
  The identifiers of the channels of server \<open>i\<close>; a message whose tags field agrees
  with its content; and the search result of a message: its owning channel is the first
  channel that carries its \<open>channelId\<close>, and the owning server the first server that
  carries that channel's \<open>serverId\<close>.
\<close>

definition deleted_channel_ids :: "jsstring \<Rightarrow> AppStore \<Rightarrow> jsstring set" where
  "deleted_channel_ids i s = c_id ` {c \<in> set (channels s). serverId c = i}"

definition tags_consistent :: "nat \<Rightarrow> Message \<Rightarrow> bool" where
  "tags_consistent li m \<longleftrightarrow> tags m = tagsField (parseTags li (content m))"

definition resolve :: "AppStore \<Rightarrow> Message \<Rightarrow> SearchResult option" where
  "resolve state m =
     (case find (\<lambda>c. c_id c = channelId m) (channels state) of
        None \<Rightarrow> None
      | Some ch \<Rightarrow>
          (case find (\<lambda>s. s_id s = serverId ch) (servers state) of
             None \<Rightarrow> None
           | Some sv \<Rightarrow> Some \<lparr>message = m, channel = ch, server = sv\<rparr>))"

subsection \<open>Example states\<close>

text \<open>
  A store with two servers, a channel of each, a channel \<^verbatim>\<open>c3\<close> whose server \<^verbatim>\<open>s9\<close> is not
  there, and five messages, the last in a channel that is not there.
\<close>

definition example_store :: AppStore where
  "example_store =
     \<lparr>servers =
        [\<lparr>s_id = js ''s1'', s_name = js ''One'', icon = None, s_createdAt = 1\<rparr>,
         \<lparr>s_id = js ''s2'', s_name = js ''Two'', icon = Some (js ''T''), s_createdAt = 2\<rparr>],
      channels =
        [\<lparr>c_id = js ''c1'', serverId = js ''s1'', c_name = js ''general'', c_createdAt = 3\<rparr>,
         \<lparr>c_id = js ''c2'', serverId = js ''s2'', c_name = js ''random'', c_createdAt = 4\<rparr>,
         \<lparr>c_id = js ''c3'', serverId = js ''s9'', c_name = js ''stray'', c_createdAt = 5\<rparr>],
      messages =
        [\<lparr>m_id = js ''m1'', channelId = js ''c1'', content = js ''Hi #Foo there'', createdAt = 30,
          editedAt = None, tags = Some [js ''foo''], isPinned = Some True, isBookmarked = None\<rparr>,
         \<lparr>m_id = js ''m2'', channelId = js ''c2'', content = js ''say hi'', createdAt = 10,
          editedAt = None, tags = None, isPinned = None, isBookmarked = Some True\<rparr>,
         \<lparr>m_id = js ''m3'', channelId = js ''c1'', content = js ''other'', createdAt = 20,
          editedAt = None, tags = None, isPinned = Some True, isBookmarked = Some True\<rparr>,
         \<lparr>m_id = js ''m4'', channelId = js ''c3'', content = js ''hi stray'', createdAt = 40,
          editedAt = None, tags = None, isPinned = Some False, isBookmarked = None\<rparr>,
         \<lparr>m_id = js ''m5'', channelId = js ''c9'', content = js ''hi lost'', createdAt = 50,
          editedAt = None, tags = None, isPinned = None, isBookmarked = None\<rparr>],
      selectedServerId = Some (js ''s1''), selectedChannelId = Some (js ''c1''),
      searchQuery = js '' HI '', isSearchOpen = True, selectedTag = None,
      isBookmarkPanelOpen = False\<rparr>"

text \<open>
  The store after \<^verbatim>\<open>addChannel('s9', 'general')\<close> and \<^verbatim>\<open>addMessage('c1', 'hello')\<close> on the
  initial store: \<open>addChannel\<close> does not look for the server it is given.
\<close>

definition orphan_store :: AppStore where
  "orphan_store =
     fst (addMessage 0 (js ''m1'') 2 (js ''c1'') (js ''hello'')
       (fst (addChannel (js ''c1'') 1 (js ''s9'') (js ''general'') initialStore)))"

definition example_ops :: "MessageOp list" where
  "example_ops =
     [AddMessage (js ''m1'') 1 (js ''c1'') (js ''#a #b #a''),
      UpdateMessage 2 (js ''m1'') (js ''no tags now''),
      AddMessage (js ''m2'') 3 (js ''c1'') (js ''x #B y #b'')]"

section \<open>Persistence (src/utils/storage)\<close>

datatype error = SyntaxError | TypeError | InvalidFormat | FileReadError | QuotaExceededError

text \<open>
  \<open>localStorage\<close> as the functions of this module use it: the value under \<open>STORAGE_KEY\<close>
  (\<open>None\<close> when the key is not there, where \<^verbatim>\<open>getItem\<close> returns \<^verbatim>\<open>null\<close>) and the room the
  browser grants. \<^verbatim>\<open>setItem\<close> throws \<^verbatim>\<open>QuotaExceededError\<close> and stores nothing when the
  value does not fit; \<^verbatim>\<open>getItem\<close> does not throw.
\<close>

record LocalStorage =
  item :: "jsstring option"
  quota :: nat

definition getItem :: "LocalStorage \<Rightarrow> jsstring option" where
  "getItem ls = item ls"

definition setItem :: "jsstring \<Rightarrow> LocalStorage \<Rightarrow> error + LocalStorage" where
  "setItem v ls = (if length v \<le> quota ls then Inr (ls\<lparr>item := Some v\<rparr>) else Inl QuotaExceededError)"

text \<open>
  What \<^verbatim>\<open>JSON.parse\<close> returns, read through the \<open>StorageData\<close> interface: \<^verbatim>\<open>null\<close>, on which
  every property access throws a \<^verbatim>\<open>TypeError\<close>, or a value whose properties can be read
  (a number, a string, a boolean or an array reads each of the four as \<^verbatim>\<open>undefined\<close>, as
  the object without them does). \<^verbatim>\<open>JSON.parse\<close> and \<^verbatim>\<open>JSON.stringify\<close> themselves are
  arguments of the functions below: \<open>JSON_parse\<close> returns \<open>Inl SyntaxError\<close> where
  \<^verbatim>\<open>JSON.parse\<close> throws.
\<close>

datatype JsonValue = JsonNull | JsonObject StorageData

type_synonym parser = "jsstring \<Rightarrow> error + JsonValue"
type_synonym serializer = "StorageData \<Rightarrow> jsstring"

definition CURRENT_VERSION :: int where
  "CURRENT_VERSION = 1"

text \<open>
  \<open>getDefaultData\<close> reads the clock three times; the three reads are taken to return the
  same instant \<open>now\<close>. The names are Korean text and an emoji, written as code units.
\<close>

definition getDefaultData :: "int \<Rightarrow> StorageData" where
  "getDefaultData now =
     \<lparr>data_servers = Some
        [\<lparr>s_id = js ''default-server'', s_name = [0xB0B4, 0x0020, 0xC11C, 0xBC84],
          icon = Some [0xD83C, 0xDFE0], s_createdAt = now\<rparr>],
      data_channels = Some
        [\<lparr>c_id = js ''default-channel'', serverId = js ''default-server'',
          c_name = js ''general'', c_createdAt = now\<rparr>],
      data_messages = Some
        [\<lparr>m_id = js ''welcome-message'', channelId = js ''default-channel'',
          content = [0xB85C, 0xCEEC, 0x0020, 0x0044, 0x0069, 0x0073, 0x0063, 0x006F, 0x0072,
                     0x0064, 0xC5D0, 0x0020, 0xC624, 0xC2E0, 0x0020, 0xAC83, 0xC744, 0x0020,
                     0xD658, 0xC601, 0xD569, 0xB2C8, 0xB2E4, 0x0021, 0x0020, 0xD83D, 0xDC4B],
          createdAt = now, editedAt = None, tags = None, isPinned = None,
          isBookmarked = None\<rparr>],
      data_version = Some CURRENT_VERSION\<rparr>"

text \<open>\<open>saveData\<close> catches what \<^verbatim>\<open>setItem\<close> throws and logs it: storage is left as it was.\<close>

definition saveData :: "serializer \<Rightarrow> StorageData \<Rightarrow> LocalStorage \<Rightarrow> LocalStorage" where
  "saveData JSON_stringify data ls =
     (case setItem (JSON_stringify data) ls of
        Inr ls' \<Rightarrow> ls'
      | Inl e \<Rightarrow> ls)"

text \<open>
  The body of the \<^verbatim>\<open>try\<close> block of \<open>loadData\<close>: the data it returns and the storage it
  leaves, or what it throws. \<^verbatim>\<open>!raw\<close> holds for \<^verbatim>\<open>null\<close> and for the empty string;
  \<^verbatim>\<open>data.version < CURRENT_VERSION\<close> is false when the field is absent.
\<close>

definition loadData_try ::
  "parser \<Rightarrow> serializer \<Rightarrow> int \<Rightarrow> LocalStorage \<Rightarrow> error + (StorageData \<times> LocalStorage)" where
  "loadData_try JSON_parse JSON_stringify now ls =
     (let raw = getItem ls in
      if raw = None \<or> raw = Some [] then
        (let defaultData = getDefaultData now
         in Inr (defaultData, saveData JSON_stringify defaultData ls))
      else
        (case JSON_parse (the raw) of
           Inl e \<Rightarrow> Inl e
         | Inr JsonNull \<Rightarrow> Inl TypeError
         | Inr (JsonObject data) \<Rightarrow>
             (if (case data_version data of None \<Rightarrow> False | Some v \<Rightarrow> v < CURRENT_VERSION)
              then (let data' = data\<lparr>data_version := Some CURRENT_VERSION\<rparr>
                    in Inr (data', saveData JSON_stringify data' ls))
              else Inr (data, ls))))"

definition loadData ::
  "parser \<Rightarrow> serializer \<Rightarrow> int \<Rightarrow> LocalStorage \<Rightarrow> StorageData \<times> LocalStorage" where
  "loadData JSON_parse JSON_stringify now ls =
     (case loadData_try JSON_parse JSON_stringify now ls of
        Inr r \<Rightarrow> r
      | Inl e \<Rightarrow> (getDefaultData now, ls))"

text \<open>
  \<open>importData\<close>: the file is the text \<^verbatim>\<open>FileReader\<close> reads, or \<open>None\<close> when the read fails
  (\<^verbatim>\<open>onerror\<close>). The result is how the promise settles, \<open>Inr\<close> resolved and \<open>Inl\<close> rejected,
  with the storage left behind. An array, also an empty one, is truthy, so
  \<^verbatim>\<open>!data.servers\<close> holds exactly when the field is absent.
\<close>

definition importData ::
  "parser \<Rightarrow> serializer \<Rightarrow> jsstring option \<Rightarrow> LocalStorage \<Rightarrow> (error + StorageData) \<times> LocalStorage" where
  "importData JSON_parse JSON_stringify file ls =
     (case file of
        None \<Rightarrow> (Inl FileReadError, ls)
      | Some result \<Rightarrow>
          (case JSON_parse result of
             Inl e \<Rightarrow> (Inl e, ls)
           | Inr JsonNull \<Rightarrow> (Inl TypeError, ls)
           | Inr (JsonObject data) \<Rightarrow>
               (if data_servers data = None \<or> data_channels data = None \<or> data_messages data = None
                then (Inl InvalidFormat, ls)
                else (Inr data, saveData JSON_stringify data ls))))"

subsection \<open>Notions and examples for the properties of persistence\<close>

definition has_collections :: "StorageData \<Rightarrow> bool" where
  "has_collections d \<longleftrightarrow> data_servers d \<noteq> None \<and> data_channels d \<noteq> None \<and> data_messages d \<noteq> None"

text \<open>
  A snapshot whose only message names a channel that is not in it, an object without the
  \<^verbatim>\<open>messages\<close> field, and a parser and a serializer for the examples. The parser knows
  four texts: \<^verbatim>\<open>snapshot\<close> for the snapshot, \<^verbatim>\<open>v0\<close> for the snapshot with version 0,
  \<^verbatim>\<open>partial\<close> for the object without \<^verbatim>\<open>messages\<close>, and \<^verbatim>\<open>null\<close>; it rejects every other
  text, as \<^verbatim>\<open>JSON.parse\<close> rejects \<^verbatim>\<open>{\<close>. The serializer writes \<^verbatim>\<open>other\<close> for a value that is
  neither the snapshot nor the partial object.
\<close>

definition example_data :: StorageData where
  "example_data =
     \<lparr>data_servers = Some [],
      data_channels = Some [],
      data_messages = Some
        [\<lparr>m_id = js ''m1'', channelId = js ''c9'', content = js ''hi'', createdAt = 7,
          editedAt = None, tags = None, isPinned = None, isBookmarked = None\<rparr>],
      data_version = Some 1\<rparr>"

definition partial_data :: StorageData where
  "partial_data =
     \<lparr>data_servers = Some [], data_channels = Some [], data_messages = None,
      data_version = None\<rparr>"

definition example_parse :: parser where
  "example_parse raw =
     (if raw = js ''snapshot'' then Inr (JsonObject example_data)
      else if raw = js ''v0'' then Inr (JsonObject (example_data\<lparr>data_version := Some 0\<rparr>))
      else if raw = js ''partial'' then Inr (JsonObject partial_data)
      else if raw = js ''null'' then Inr JsonNull
      else Inl SyntaxError)"

definition example_stringify :: serializer where
  "example_stringify d =
     (if d = example_data then js ''snapshot''
      else if d = partial_data then js ''partial''
      else js ''other'')"

section \<open>Properties of the tag utilities\<close>

subsection \<open>The segments of parseContentWithTags\<close>

lemma slice_join:
  assumes "a \<le> b" "b + n \<le> length s"
  shows "slice s a b @ take n (drop b s) @ drop (b + n) s = drop a s"
proof -
  have 1: "take (b - a) (drop a s) @ drop (b - a) (drop a s) = drop a s"
    by (rule append_take_drop_id)
  have 2: "drop (b - a) (drop a s) = drop b s" using assms by simp
  have 3: "take n (drop b s) @ drop n (drop b s) = drop b s"
    by (rule append_take_drop_id)
  have 4: "drop n (drop b s) = drop (b + n) s" by (simp add: add.commute)
  from 1 2 3 4 show ?thesis unfolding slice_def by metis
qed

text \<open>
  The loop invariant: the parts pushed so far, followed by the text from \<^verbatim>\<open>lastIndex\<close> on,
  spell the same string before and after the loop.
\<close>

lemma parse_loop_concat:
  "lastIndex \<le> regex_lastIndex \<Longrightarrow> parse_loop str regex_lastIndex lastIndex parts = (parts', lastIndex') \<Longrightarrow>
     concat (map pcontent parts') @ drop lastIndex' str
       = concat (map pcontent parts) @ drop lastIndex str"
proof (induction str regex_lastIndex lastIndex parts rule: parse_loop.induct)
  case (1 str rli li parts)
  show ?case
  proof (cases "regex_exec str rli")
    case (Pair r rli')
    show ?thesis
    proof (cases r)
      case None
      with Pair "1.prems" show ?thesis by (simp add: parse_loop.simps [of str rli])
    next
      case (Some m)
      let ?parts = "(if li < index m
              then parts @ [\<lparr>ptype = TextPart, pcontent = slice str li (index m), ptag = None\<rparr>]
              else parts)
             @ [\<lparr>ptype = TagPart, pcontent = match0 m, ptag = Some (toLowerCase (match1 m))\<rparr>]"
      from Pair Some have e: "regex_exec str rli = (Some m, rli')" by simp
      then have s: "regex_search str rli = Some m"
        by (auto simp: regex_exec_def split: option.splits)
      note f = regex_exec_Some [OF e] regex_search_Some [OF s]
      from e "1.prems" have l: "parse_loop str rli' (index m + length (match0 m)) ?parts = (parts', lastIndex')"
        by (simp add: parse_loop.simps [of str rli])
      have le: "index m + length (match0 m) \<le> rli'" using f by simp
      have "concat (map pcontent parts') @ drop lastIndex' str
            = concat (map pcontent ?parts) @ drop (index m + length (match0 m)) str"
        using "1.IH" [OF e [symmetric] refl le l] .
      also have "\<dots> = concat (map pcontent parts) @ slice str li (index m) @ match0 m
                    @ drop (index m + length (match0 m)) str"
        by (simp add: slice_def)
      also have "slice str li (index m) @ match0 m @ drop (index m + length (match0 m)) str
                 = drop li str"
      proof -
        have a: "li \<le> index m" using f "1.prems" by simp
        have b: "index m + length (match0 m) \<le> length str" using f by simp
        have "take (length (match0 m)) (drop (index m) str) = match0 m" using f by blast
        with slice_join [OF a b] show ?thesis by simp
      qed
      finally show ?thesis .
    qed
  qed
qed

text \<open>
  Claim C3. For every content string, the \<^verbatim>\<open>content\<close> fields of the parts that
  \<open>parseContentWithTags\<close> returns, text parts and tag parts alike, concatenated in order,
  are the content string itself.
\<close>

theorem parseContentWithTags_roundtrip:
  "concat (map pcontent (parseContentWithTags str)) = str"
proof (cases "parse_loop str 0 0 []")
  case (Pair parts lastIndex)
  from parse_loop_concat [OF _ Pair] have "concat (map pcontent parts) @ drop lastIndex str = str"
    by simp
  with Pair show ?thesis
    by (auto simp: parseContentWithTags_def)
qed

subsection \<open>The matches of the pattern are the tag tokens\<close>

lemma tag_tokens_step:
  assumes "i < length s"
  shows "tag_tokens (drop i s) =
           (case tag_match_at s i of
              Some g \<Rightarrow> g # tag_tokens (drop (i + length (0x23 # g)) s)
            | None \<Rightarrow> tag_tokens (drop (Suc i) s))"
proof -
  from assms have d: "drop i s = s ! i # drop (Suc i) s"
    by (simp add: Cons_nth_drop_Suc)
  have "dropWhile isTagChar (drop (Suc i) s)
          = drop (i + length (0x23 # takeWhile isTagChar (drop (Suc i) s))) s"
    by (simp add: dropWhile_eq_drop add.commute)
  then show ?thesis
    by (simp add: tag_match_at_def d)
qed

lemma regex_search_None_tokens:
  "regex_search s i = None \<Longrightarrow> tag_tokens (drop i s) = []"
proof (induction s i rule: regex_search.induct)
  case (1 s i)
  show ?case
  proof (cases "i < length s")
    case False
    then show ?thesis by simp
  next
    case True
    with "1.prems" have n: "tag_match_at s i = None" and r: "regex_search s (Suc i) = None"
      by (auto simp: regex_search.simps [of s i] split: option.splits)
    from True have "\<not> length s < i" by simp
    from "1.IH" [OF this n r] tag_tokens_step [OF True] n show ?thesis by simp
  qed
qed

lemma regex_search_Some_tokens:
  "regex_search s i = Some m \<Longrightarrow>
     tag_tokens (drop i s) = match1 m # tag_tokens (drop (index m + length (match0 m)) s)"
proof (induction s i rule: regex_search.induct)
  case (1 s i)
  from "1.prems" have le: "\<not> length s < i"
    by (auto simp: regex_search.simps [of s i] split: if_splits)
  show ?case
  proof (cases "tag_match_at s i")
    case (Some g)
    from tag_match_at_Some [OF Some] have "i < length s" by simp
    from tag_tokens_step [OF this] Some "1.prems" le show ?thesis
      by (auto simp: regex_search.simps [of s i])
  next
    case None
    with "1.prems" le have r: "regex_search s (Suc i) = Some m"
      by (simp add: regex_search.simps [of s i])
    then have "\<not> length s < Suc i"
      by (auto simp: regex_search.simps [of s "Suc i"] split: if_splits)
    then have lt: "i < length s" by simp
    from "1.IH" [OF le None r] tag_tokens_step [OF lt] None show ?thesis by simp
  qed
qed

lemma matchAll_tokens: "map match1 (matchAll s li) = tag_tokens (drop li s)"
proof (induction s li rule: matchAll.induct)
  case (1 s li)
  show ?case
  proof (cases "regex_search s li")
    case None
    then have "matchAll s li = []"
      by (simp add: matchAll.simps [of s li] regex_exec_def)
    with regex_search_None_tokens [OF None] show ?thesis by simp
  next
    case (Some m)
    let ?li = "index m + length (match0 m)"
    from Some have e: "regex_exec s li = (Some m, ?li)"
      by (simp add: regex_exec_def)
    then have "matchAll s li = m # matchAll s ?li"
      by (simp add: matchAll.simps [of s li])
    with "1.IH" [OF e [symmetric] refl] regex_search_Some_tokens [OF Some]
    show ?thesis by simp
  qed
qed

subsection \<open>parseTags\<close>

lemma fold_Set_add:
  "fold (\<lambda>x acc. Set_add acc x) xs acc = acc @ first_occurrences (filter (\<lambda>y. y \<notin> set acc) xs)"
proof (induction xs arbitrary: acc)
  case Nil
  show ?case by simp
next
  case (Cons x xs)
  show ?case
  proof (cases "x \<in> set acc")
    case True
    with Cons.IH [of acc] show ?thesis by (simp add: Set_add_def)
  next
    case False
    have "filter (\<lambda>y. y \<notin> set (acc @ [x])) xs = filter (\<lambda>y. y \<noteq> x) (filter (\<lambda>y. y \<notin> set acc) xs)"
      by (induction xs) auto
    with False Cons.IH [of "acc @ [x]"] show ?thesis by (simp add: Set_add_def)
  qed
qed

lemma set_first_occurrences: "set (first_occurrences xs) = set xs"
proof (induction xs rule: first_occurrences.induct)
  case 1
  show ?case by simp
next
  case (2 x xs)
  then show ?case by auto
qed

lemma distinct_first_occurrences: "distinct (first_occurrences xs)"
proof (induction xs rule: first_occurrences.induct)
  case 1
  show ?case by simp
next
  case (2 x xs)
  then show ?case by (simp add: set_first_occurrences)
qed

text \<open>
  In whatever state \<open>TAG_REGEX\<close> is, \<open>parseTags\<close> returns the lowered tokens of the text
  from \<^verbatim>\<open>lastIndex\<close> on, each once, in the order of their first occurrences.
\<close>

lemma parseTags_tokens:
  "parseTags li str = first_occurrences (map toLowerCase (tag_tokens (drop li str)))"
proof -
  have "fold (\<lambda>m tags. Set_add tags (toLowerCase (match1 m))) (matchAll str li) []
        = fold (\<lambda>x acc. Set_add acc x) (map (\<lambda>m. toLowerCase (match1 m)) (matchAll str li)) []"
    by (simp add: fold_map comp_def)
  also have "\<dots> = first_occurrences (map (\<lambda>m. toLowerCase (match1 m)) (matchAll str li))"
    by (simp add: fold_Set_add)
  also have "map (\<lambda>m. toLowerCase (match1 m)) (matchAll str li)
             = map toLowerCase (map match1 (matchAll str li))"
    by simp
  finally show ?thesis
    by (simp add: parseTags_def matchAll_tokens)
qed

text \<open>
  Claim C2. Called with \<open>TAG_REGEX\<close> as the module creates it (\<^verbatim>\<open>lastIndex\<close> 0, which is
  how the store finds it: of this repository only \<open>hasTags\<close> moves it, and nothing calls
  \<open>hasTags\<close>), \<open>parseTags\<close> returns, for every content string, the tokens of the content
  lowered, each distinct tag once and in the order of first occurrence; the result is the
  empty list, a list all the same, exactly when the content has no token; and the tags
  of \<^verbatim>\<open>#a #b #a\<close> are \<^verbatim>\<open>a\<close> and \<^verbatim>\<open>b\<close>.
\<close>

theorem parseTags_spec:
  "parseTags 0 str = first_occurrences (map toLowerCase (tag_tokens str))
   \<and> distinct (parseTags 0 str)
   \<and> set (parseTags 0 str) = toLowerCase ` set (tag_tokens str)
   \<and> (parseTags 0 str = []) = (tag_tokens str = [])
   \<and> parseTags 0 (js ''#a #b #a'') = [js ''a'', js ''b'']"
proof -
  have 1: "parseTags 0 str = first_occurrences (map toLowerCase (tag_tokens str))"
    by (simp add: parseTags_tokens)
  have 2: "distinct (parseTags 0 str)"
    by (simp add: 1 distinct_first_occurrences)
  have 3: "set (parseTags 0 str) = toLowerCase ` set (tag_tokens str)"
    by (simp add: 1 set_first_occurrences)
  have 4: "(parseTags 0 str = []) = (tag_tokens str = [])"
    using 3 by (metis image_is_empty set_empty)
  have 5: "parseTags 0 (js ''#a #b #a'') = [js ''a'', js ''b'']"
    by code_simp
  from 1 2 3 4 5 show ?thesis by blast
qed

subsection \<open>hasTags\<close>

text \<open>
  Claim C10. \<open>hasTags\<close> is not a function of its argument alone. On a content with exactly
  one tag token, two calls in a row, the first finding \<open>TAG_REGEX\<close> as the module creates
  it, return \<^verbatim>\<open>true\<close> and then \<^verbatim>\<open>false\<close>: the first call leaves \<^verbatim>\<open>lastIndex\<close> behind the
  token, and the second searches from there.
\<close>

theorem hasTags_stateful:
  assumes "tag_tokens str = [t]"
  shows "fst (hasTags 0 str) = True \<and> fst (hasTags (snd (hasTags 0 str)) str) = False"
proof -
  from assms have t: "tag_tokens (drop 0 str) \<noteq> []" by simp
  then obtain m where s: "regex_search str 0 = Some m"
    using regex_search_None_tokens [of str 0] by (cases "regex_search str 0") auto
  let ?li = "index m + length (match0 m)"
  from regex_search_Some_tokens [OF s] assms have "tag_tokens (drop ?li str) = []" by simp
  then have n: "regex_search str ?li = None"
    using regex_search_Some_tokens [of str ?li] by (cases "regex_search str ?li") auto
  from s have 1: "hasTags 0 str = (True, ?li)"
    by (simp add: hasTags_def regex_exec_def)
  from n have 2: "hasTags ?li str = (False, 0)"
    by (simp add: hasTags_def regex_exec_def)
  from 1 2 show ?thesis by simp
qed

theorem hasTags_stateful_witness:
  "tag_tokens (js ''#a'') = [js ''a'']
   \<and> hasTags 0 (js ''#a'') = (True, 2) \<and> hasTags 2 (js ''#a'') = (False, 0)"
proof -
  have h: "tag_tokens (js ''#a'') = [js ''a'']" by code_simp
  have a: "snd (hasTags 0 (js ''#a'')) = 2" by code_simp
  from hasTags_stateful [OF h] a
  have "fst (hasTags 0 (js ''#a'')) = True \<and> fst (hasTags 2 (js ''#a'')) = False"
    by simp
  moreover have "snd (hasTags 2 (js ''#a'')) = 0" by code_simp
  ultimately show ?thesis using h a by (simp add: prod_eq_iff)
qed

section \<open>Properties of the store\<close>

subsection \<open>Tags follow the content\<close>

lemma addMessage_consistent:
  assumes "list_all (tags_consistent li) (messages s)"
  shows "list_all (tags_consistent li) (messages (fst (addMessage li uuid now cid c s)))"
  using assms by (simp add: addMessage_def Let_def tags_consistent_def)

lemma updateMessage_consistent:
  assumes "list_all (tags_consistent li) (messages s)"
  shows "list_all (tags_consistent li) (messages (fst (updateMessage li now i c s)))"
  using assms by (auto simp add: updateMessage_def Let_def tags_consistent_def list_all_iff)

lemma apply_ops_consistent:
  "list_all (tags_consistent li) (messages s) \<Longrightarrow>
     list_all (tags_consistent li) (messages (apply_ops li ops s))"
  unfolding apply_ops_def
proof (induction ops arbitrary: s)
  case Nil
  then show ?case by simp
next
  case (Cons op ops)
  have "list_all (tags_consistent li) (messages (apply_op li op s))"
    using Cons.prems
    by (cases op) (simp_all add: addMessage_consistent updateMessage_consistent)
  from Cons.IH [OF this] show ?case by simp
qed

text \<open>
  Claim C1. Start from a store in which every message's tags agree with its content (the
  initial store, which has no message, is one) and run any sequence of \<open>addMessage\<close> and
  \<open>updateMessage\<close> calls, \<open>TAG_REGEX\<close> being as the module creates it. Then for every
  message of the store the tags field is what \<open>parseTags\<close> returns on its content: the
  lowered tokens of the content, each once, in the order of first occurrence, and the
  field is absent, never an empty list, when the content has no token.
\<close>

theorem tags_follow_content:
  assumes "\<forall>m\<in>set (messages s). tags m = tagsField (parseTags 0 (content m))"
    and "m \<in> set (messages (apply_ops 0 ops s))"
  shows "tags m = (if tag_tokens (content m) = [] then None
                   else Some (first_occurrences (map toLowerCase (tag_tokens (content m)))))
         \<and> tags m = tagsField (parseTags 0 (content m)) \<and> tags m \<noteq> Some []"
proof -
  from assms(1) have "list_all (tags_consistent 0) (messages s)"
    by (simp add: list_all_iff tags_consistent_def)
  from apply_ops_consistent [OF this] assms(2)
  have t: "tags m = tagsField (parseTags 0 (content m))"
    by (simp add: list_all_iff tags_consistent_def)
  have p: "parseTags 0 (content m) = first_occurrences (map toLowerCase (tag_tokens (content m)))"
    by (simp add: parseTags_tokens)
  have e: "(first_occurrences (map toLowerCase (tag_tokens (content m))) = []) = (tag_tokens (content m) = [])"
    by (metis set_first_occurrences set_empty map_is_Nil_conv)
  from t p e show ?thesis
    by (auto simp: tagsField_def)
qed

theorem tags_follow_content_witness:
  "messages initialStore = []
   \<and> map content (messages (apply_ops 0 example_ops initialStore)) = [js ''no tags now'', js ''x #B y #b'']
   \<and> map tags (messages (apply_ops 0 example_ops initialStore)) = [None, Some [js ''b'']]
   \<and> tags (messages (apply_ops 0 example_ops initialStore) ! 1)
       = tagsField (parseTags 0 (content (messages (apply_ops 0 example_ops initialStore) ! 1)))"
proof -
  have i: "messages initialStore = []" by (simp add: initialStore_def)
  then have h1: "\<forall>m\<in>set (messages initialStore). tags m = tagsField (parseTags 0 (content m))"
    by simp
  have h2: "messages (apply_ops 0 example_ops initialStore) ! 1
              \<in> set (messages (apply_ops 0 example_ops initialStore))"
    by code_simp
  have c: "map content (messages (apply_ops 0 example_ops initialStore)) = [js ''no tags now'', js ''x #B y #b'']"
    by code_simp
  have t: "map tags (messages (apply_ops 0 example_ops initialStore)) = [None, Some [js ''b'']]"
    by code_simp
  from tags_follow_content [OF h1 h2]
  have x: "tags (messages (apply_ops 0 example_ops initialStore) ! 1)
       = tagsField (parseTags 0 (content (messages (apply_ops 0 example_ops initialStore) ! 1)))"
    by blast
  from i c t x show ?thesis by blast
qed

subsection \<open>deleteServer\<close>

text \<open>
  Claim C4, amended. \<open>deleteServer\<close> removes the servers with that id, the channels whose
  \<open>serverId\<close> is that id and the messages of those channels, and leaves every other
  server, channel and message in place and in order; it clears the server selection when
  it was that id and the channel selection when it was one of the removed channels, and
  touches nothing else. When no server has that id and no channel names it as its
  server, the three collections are unchanged.
\<close>

theorem deleteServer_cascade:
  "servers (fst (deleteServer i s)) = filter (\<lambda>x. s_id x \<noteq> i) (servers s)
   \<and> channels (fst (deleteServer i s)) = filter (\<lambda>c. serverId c \<noteq> i) (channels s)
   \<and> messages (fst (deleteServer i s))
       = filter (\<lambda>m. channelId m \<notin> deleted_channel_ids i s) (messages s)
   \<and> selectedServerId (fst (deleteServer i s))
       = (if selectedServerId s = Some i then None else selectedServerId s)
   \<and> selectedChannelId (fst (deleteServer i s))
       = (if selectedChannelId s \<in> Some ` deleted_channel_ids i s then None else selectedChannelId s)
   \<and> searchQuery (fst (deleteServer i s)) = searchQuery s
   \<and> isSearchOpen (fst (deleteServer i s)) = isSearchOpen s
   \<and> selectedTag (fst (deleteServer i s)) = selectedTag s
   \<and> isBookmarkPanelOpen (fst (deleteServer i s)) = isBookmarkPanelOpen s
   \<and> ((\<forall>x\<in>set (servers s). s_id x \<noteq> i) \<and> (\<forall>c\<in>set (channels s). serverId c \<noteq> i)
        \<longrightarrow> servers (fst (deleteServer i s)) = servers s
            \<and> channels (fst (deleteServer i s)) = channels s
            \<and> messages (fst (deleteServer i s)) = messages s)"
proof -
  have ids: "set (map c_id (filter (\<lambda>c. serverId c = i) (channels s))) = deleted_channel_ids i s"
    by (auto simp: deleted_channel_ids_def)
  have 1: "servers (fst (deleteServer i s)) = filter (\<lambda>x. s_id x \<noteq> i) (servers s)"
    by (simp add: deleteServer_def Let_def)
  have 2: "channels (fst (deleteServer i s)) = filter (\<lambda>c. serverId c \<noteq> i) (channels s)"
    by (simp add: deleteServer_def Let_def)
  have 3: "messages (fst (deleteServer i s))
       = filter (\<lambda>m. channelId m \<notin> deleted_channel_ids i s) (messages s)"
    by (simp add: deleteServer_def Let_def ids del: set_map set_filter)
  have 4: "selectedServerId (fst (deleteServer i s))
       = (if selectedServerId s = Some i then None else selectedServerId s)"
    by (simp add: deleteServer_def Let_def)
  have 5: "selectedChannelId (fst (deleteServer i s))
       = (if selectedChannelId s \<in> Some ` deleted_channel_ids i s then None else selectedChannelId s)"
    by (cases "selectedChannelId s")
       (auto simp add: deleteServer_def Let_def ids simp del: set_map set_filter)
  have 6: "searchQuery (fst (deleteServer i s)) = searchQuery s
   \<and> isSearchOpen (fst (deleteServer i s)) = isSearchOpen s
   \<and> selectedTag (fst (deleteServer i s)) = selectedTag s
   \<and> isBookmarkPanelOpen (fst (deleteServer i s)) = isBookmarkPanelOpen s"
    by (simp add: deleteServer_def Let_def)
  have 7: "(\<forall>x\<in>set (servers s). s_id x \<noteq> i) \<and> (\<forall>c\<in>set (channels s). serverId c \<noteq> i)
        \<longrightarrow> servers (fst (deleteServer i s)) = servers s
            \<and> channels (fst (deleteServer i s)) = channels s
            \<and> messages (fst (deleteServer i s)) = messages s"
  proof
    assume a: "(\<forall>x\<in>set (servers s). s_id x \<noteq> i) \<and> (\<forall>c\<in>set (channels s). serverId c \<noteq> i)"
    then have e: "deleted_channel_ids i s = {}"
      by (auto simp: deleted_channel_ids_def)
    from a have fs: "filter (\<lambda>x. s_id x \<noteq> i) (servers s) = servers s"
      and fc: "filter (\<lambda>c. serverId c \<noteq> i) (channels s) = channels s"
      by (simp_all add: filter_id_conv)
    from 1 2 3 e fs fc
    show "servers (fst (deleteServer i s)) = servers s
            \<and> channels (fst (deleteServer i s)) = channels s
            \<and> messages (fst (deleteServer i s)) = messages s"
      by simp
  qed
  from 1 2 3 4 5 6 7 show ?thesis by blast
qed

text \<open>
  On the example store: no server and no channel names \<^verbatim>\<open>zz\<close>, and deleting it changes
  no collection; deleting \<^verbatim>\<open>s1\<close> removes it, its channel \<^verbatim>\<open>c1\<close> and the two messages of
  \<^verbatim>\<open>c1\<close>, and clears both selections.
\<close>

theorem deleteServer_cascade_witness:
  "list_all (\<lambda>x. s_id x \<noteq> js ''zz'') (servers example_store)
   \<and> list_all (\<lambda>c. serverId c \<noteq> js ''zz'') (channels example_store)
   \<and> servers (fst (deleteServer (js ''zz'') example_store)) = servers example_store
   \<and> channels (fst (deleteServer (js ''zz'') example_store)) = channels example_store
   \<and> messages (fst (deleteServer (js ''zz'') example_store)) = messages example_store
   \<and> map s_id (servers (fst (deleteServer (js ''s1'') example_store))) = [js ''s2'']
   \<and> map c_id (channels (fst (deleteServer (js ''s1'') example_store))) = [js ''c2'', js ''c3'']
   \<and> map m_id (messages (fst (deleteServer (js ''s1'') example_store))) = [js ''m2'', js ''m4'', js ''m5'']
   \<and> selectedServerId (fst (deleteServer (js ''s1'') example_store)) = None
   \<and> selectedChannelId (fst (deleteServer (js ''s1'') example_store)) = None"
proof -
  have a: "list_all (\<lambda>x. s_id x \<noteq> js ''zz'') (servers example_store)" by code_simp
  have b: "list_all (\<lambda>c. serverId c \<noteq> js ''zz'') (channels example_store)" by code_simp
  from a b have h: "(\<forall>x\<in>set (servers example_store). s_id x \<noteq> js ''zz'')
      \<and> (\<forall>c\<in>set (channels example_store). serverId c \<noteq> js ''zz'')"
    by (simp add: list_all_iff)
  from deleteServer_cascade [of "js ''zz''" example_store] h
  have z: "servers (fst (deleteServer (js ''zz'') example_store)) = servers example_store
   \<and> channels (fst (deleteServer (js ''zz'') example_store)) = channels example_store
   \<and> messages (fst (deleteServer (js ''zz'') example_store)) = messages example_store"
    by blast
  have 1: "map s_id (servers (fst (deleteServer (js ''s1'') example_store))) = [js ''s2'']"
    by code_simp
  have 2: "map c_id (channels (fst (deleteServer (js ''s1'') example_store))) = [js ''c2'', js ''c3'']"
    by code_simp
  have 3: "map m_id (messages (fst (deleteServer (js ''s1'') example_store))) = [js ''m2'', js ''m4'', js ''m5'']"
    by code_simp
  have 4: "selectedServerId (fst (deleteServer (js ''s1'') example_store)) = None"
    by code_simp
  have 5: "selectedChannelId (fst (deleteServer (js ''s1'') example_store)) = None"
    by code_simp
  from a b z 1 2 3 4 5 show ?thesis by blast
qed

text \<open>
  The claim as it is stated, that the collections are unchanged whenever no server has
  the id, fails on a store that \<open>addChannel\<close> and \<open>addMessage\<close> build from the initial
  store: it has no server at all, and \<open>deleteServer\<close> on \<^verbatim>\<open>s9\<close> removes its channel and its
  message.
\<close>

theorem deleteServer_noop_counterexample:
  "servers orphan_store = []
   \<and> map c_id (channels orphan_store) = [js ''c1'']
   \<and> map m_id (messages orphan_store) = [js ''m1'']
   \<and> channels (fst (deleteServer (js ''s9'') orphan_store)) = []
   \<and> messages (fst (deleteServer (js ''s9'') orphan_store)) = []"
  by code_simp

subsection \<open>updateMessage, togglePin and toggleBookmark\<close>

text \<open>
  Claim C5. \<open>updateMessage\<close> keeps the number and order of the messages; a message with
  the given id gets the new content, the tags of the new content and \<open>editedAt\<close>, and keeps
  \<open>createdAt\<close>, \<open>isPinned\<close>, \<open>isBookmarked\<close>, its id and its channel; every other message
  is as it was, and so is the rest of the store, so that the store is unchanged when no
  message has the id. \<open>togglePin\<close> and \<open>toggleBookmark\<close> change, in a message with the given
  id, their own flag and no other field (so not \<open>editedAt\<close>, \<open>createdAt\<close>, \<open>content\<close> or
  \<open>tags\<close>), the flag being true afterwards exactly when it was not true before.
\<close>

theorem message_edits_frame:
  assumes "k < length (messages s)"
  shows
   "length (messages (fst (updateMessage li now i c s))) = length (messages s)
    \<and> (let m = messages s ! k; m' = messages (fst (updateMessage li now i c s)) ! k in
        if m_id m = i
        then content m' = c \<and> tags m' = tagsField (parseTags li c) \<and> editedAt m' = Some now
             \<and> createdAt m' = createdAt m \<and> isPinned m' = isPinned m
             \<and> isBookmarked m' = isBookmarked m \<and> m_id m' = m_id m \<and> channelId m' = channelId m
        else m' = m)
    \<and> fst (updateMessage li now i c s) = s\<lparr>messages := messages (fst (updateMessage li now i c s))\<rparr>
    \<and> (i \<notin> m_id ` set (messages s) \<longrightarrow> fst (updateMessage li now i c s) = s)
    \<and> length (messages (fst (togglePin i s))) = length (messages s)
    \<and> (let m = messages s ! k; m' = messages (fst (togglePin i s)) ! k in
        if m_id m = i
        then m' = m\<lparr>isPinned := isPinned m'\<rparr> \<and> (isPinned m' = Some True) = (isPinned m \<noteq> Some True)
        else m' = m)
    \<and> fst (togglePin i s) = s\<lparr>messages := messages (fst (togglePin i s))\<rparr>
    \<and> length (messages (fst (toggleBookmark i s))) = length (messages s)
    \<and> (let m = messages s ! k; m' = messages (fst (toggleBookmark i s)) ! k in
        if m_id m = i
        then m' = m\<lparr>isBookmarked := isBookmarked m'\<rparr>
             \<and> (isBookmarked m' = Some True) = (isBookmarked m \<noteq> Some True)
        else m' = m)
    \<and> fst (toggleBookmark i s) = s\<lparr>messages := messages (fst (toggleBookmark i s))\<rparr>"
proof -
  have u: "messages (fst (updateMessage li now i c s))
      = map (\<lambda>m. if m_id m = i
                  then m\<lparr>content := c, editedAt := Some now, tags := tagsField (parseTags li c)\<rparr>
                  else m) (messages s)"
    by (simp add: updateMessage_def Let_def)
  have p: "messages (fst (togglePin i s))
      = map (\<lambda>m. if m_id m = i then m\<lparr>isPinned := Some (\<not> truthy (isPinned m))\<rparr> else m) (messages s)"
    by (simp add: togglePin_def Let_def)
  have b: "messages (fst (toggleBookmark i s))
      = map (\<lambda>m. if m_id m = i then m\<lparr>isBookmarked := Some (\<not> truthy (isBookmarked m))\<rparr> else m) (messages s)"
    by (simp add: toggleBookmark_def Let_def)
  have 1: "length (messages (fst (updateMessage li now i c s))) = length (messages s)"
    by (simp add: u)
  have 2: "let m = messages s ! k; m' = messages (fst (updateMessage li now i c s)) ! k in
        if m_id m = i
        then content m' = c \<and> tags m' = tagsField (parseTags li c) \<and> editedAt m' = Some now
             \<and> createdAt m' = createdAt m \<and> isPinned m' = isPinned m
             \<and> isBookmarked m' = isBookmarked m \<and> m_id m' = m_id m \<and> channelId m' = channelId m
        else m' = m"
    using assms by (simp add: u Let_def)
  have 3: "fst (updateMessage li now i c s) = s\<lparr>messages := messages (fst (updateMessage li now i c s))\<rparr>"
    by (simp add: updateMessage_def Let_def)
  have 4: "i \<notin> m_id ` set (messages s) \<longrightarrow> fst (updateMessage li now i c s) = s"
  proof
    assume "i \<notin> m_id ` set (messages s)"
    then have "map (\<lambda>m. if m_id m = i
                  then m\<lparr>content := c, editedAt := Some now, tags := tagsField (parseTags li c)\<rparr>
                  else m) (messages s) = messages s"
      by (intro map_idI) auto
    then show "fst (updateMessage li now i c s) = s"
      by (simp add: updateMessage_def Let_def)
  qed
  have 5: "length (messages (fst (togglePin i s))) = length (messages s)"
    by (simp add: p)
  have 6: "let m = messages s ! k; m' = messages (fst (togglePin i s)) ! k in
        if m_id m = i
        then m' = m\<lparr>isPinned := isPinned m'\<rparr> \<and> (isPinned m' = Some True) = (isPinned m \<noteq> Some True)
        else m' = m"
    using assms by (simp add: p Let_def truthy_def)
  have 7: "fst (togglePin i s) = s\<lparr>messages := messages (fst (togglePin i s))\<rparr>"
    by (simp add: togglePin_def Let_def)
  have 8: "length (messages (fst (toggleBookmark i s))) = length (messages s)"
    by (simp add: b)
  have 9: "let m = messages s ! k; m' = messages (fst (toggleBookmark i s)) ! k in
        if m_id m = i
        then m' = m\<lparr>isBookmarked := isBookmarked m'\<rparr>
             \<and> (isBookmarked m' = Some True) = (isBookmarked m \<noteq> Some True)
        else m' = m"
    using assms by (simp add: b Let_def truthy_def)
  have 10: "fst (toggleBookmark i s) = s\<lparr>messages := messages (fst (toggleBookmark i s))\<rparr>"
    by (simp add: toggleBookmark_def Let_def)
  from 1 2 3 4 5 6 7 8 9 10 show ?thesis by blast
qed

text \<open>
  On the example store, whose first message \<^verbatim>\<open>m1\<close> is pinned, not bookmarked and never
  edited; no message has the id \<^verbatim>\<open>zz\<close>.
\<close>

theorem message_edits_frame_witness:
  "0 < length (messages example_store)
   \<and> m_id (messages example_store ! 0) = js ''m1''
   \<and> content (messages (fst (updateMessage 0 99 (js ''m1'') (js ''now #New'') example_store)) ! 0) = js ''now #New''
   \<and> tags (messages (fst (updateMessage 0 99 (js ''m1'') (js ''now #New'') example_store)) ! 0) = Some [js ''new'']
   \<and> editedAt (messages (fst (updateMessage 0 99 (js ''m1'') (js ''now #New'') example_store)) ! 0) = Some 99
   \<and> createdAt (messages (fst (updateMessage 0 99 (js ''m1'') (js ''now #New'') example_store)) ! 0) = 30
   \<and> isPinned (messages (fst (updateMessage 0 99 (js ''m1'') (js ''now #New'') example_store)) ! 0) = Some True
   \<and> isPinned (messages (fst (togglePin (js ''m1'') example_store)) ! 0) = Some False
   \<and> editedAt (messages (fst (togglePin (js ''m1'') example_store)) ! 0) = None
   \<and> isBookmarked (messages (fst (toggleBookmark (js ''m1'') example_store)) ! 0) = Some True
   \<and> editedAt (messages (fst (toggleBookmark (js ''m1'') example_store)) ! 0) = None
   \<and> js ''zz'' \<notin> m_id ` set (messages example_store)
   \<and> fst (updateMessage 0 99 (js ''zz'') (js ''now #New'') example_store) = example_store"
proof -
  have l: "0 < length (messages example_store)" by code_simp
  have i: "m_id (messages example_store ! 0) = js ''m1''" by code_simp
  have f: "createdAt (messages example_store ! 0) = 30 \<and> isPinned (messages example_store ! 0) = Some True
     \<and> isBookmarked (messages example_store ! 0) = None \<and> editedAt (messages example_store ! 0) = None"
    by code_simp
  have t: "tagsField (parseTags 0 (js ''now #New'')) = Some [js ''new'']" by code_simp
  have z: "js ''zz'' \<notin> m_id ` set (messages example_store)" by code_simp
  note w = message_edits_frame [OF l, of 0 99 "js ''m1''" "js ''now #New''"]
  note n = message_edits_frame [OF l, of 0 99 "js ''zz''" "js ''now #New''"]
  have u: "content (messages (fst (updateMessage 0 99 (js ''m1'') (js ''now #New'') example_store)) ! 0) = js ''now #New''
   \<and> tags (messages (fst (updateMessage 0 99 (js ''m1'') (js ''now #New'') example_store)) ! 0) = Some [js ''new'']
   \<and> editedAt (messages (fst (updateMessage 0 99 (js ''m1'') (js ''now #New'') example_store)) ! 0) = Some 99
   \<and> createdAt (messages (fst (updateMessage 0 99 (js ''m1'') (js ''now #New'') example_store)) ! 0) = 30
   \<and> isPinned (messages (fst (updateMessage 0 99 (js ''m1'') (js ''now #New'') example_store)) ! 0) = Some True"
    using w i f t by (simp add: Let_def)
  have p: "isPinned (messages (fst (togglePin (js ''m1'') example_store)) ! 0) = Some False
   \<and> editedAt (messages (fst (togglePin (js ''m1'') example_store)) ! 0) = None"
    by code_simp
  have b: "isBookmarked (messages (fst (toggleBookmark (js ''m1'') example_store)) ! 0) = Some True
   \<and> editedAt (messages (fst (toggleBookmark (js ''m1'') example_store)) ! 0) = None"
    by code_simp
  from n z have e: "fst (updateMessage 0 99 (js ''zz'') (js ''now #New'') example_store) = example_store"
    by blast
  from l i u p b z e show ?thesis by blast
qed

subsection \<open>Sorting by timestamp\<close>

lemma insert_sorted_asc:
  fixes f :: "'a \<Rightarrow> int"
  shows "insert_sorted (\<lambda>a b. f a - f b) x ys = insort_key f x ys"
  by (induction ys) auto

lemma insert_sorted_desc:
  fixes f :: "'a \<Rightarrow> int"
  shows "insert_sorted (\<lambda>a b. f b - f a) x ys = insort_key (\<lambda>a. - f a) x ys"
  by (induction ys) auto

lemma Array_sort_asc:
  fixes f :: "'a \<Rightarrow> int"
  shows "Array_sort (\<lambda>a b. f a - f b) xs = sort_key f xs"
  by (induction xs) (simp_all add: Array_sort_def insert_sorted_asc)

lemma Array_sort_desc:
  fixes f :: "'a \<Rightarrow> int"
  shows "Array_sort (\<lambda>a b. f b - f a) xs = sort_key (\<lambda>a. - f a) xs"
  by (induction xs) (simp_all add: Array_sort_def insert_sorted_desc)

lemma sorted_desc:
  fixes f :: "'a \<Rightarrow> int"
  shows "sorted (rev (map f (sort_key (\<lambda>a. - f a) xs)))"
proof -
  have "sorted (map (\<lambda>a. - f a) (sort_key (\<lambda>a. - f a) xs))" by (rule sorted_sort_key)
  then have "sorted (map uminus (map f (sort_key (\<lambda>a. - f a) xs)))" by (simp add: comp_def)
  then show ?thesis
    by (simp add: sorted_wrt_rev sorted_map sorted_wrt_map)
qed

subsection \<open>Pinned and bookmarked messages\<close>

text \<open>
  Claim C7. \<open>getPinnedMessages\<close> returns exactly the messages (each as often as the store
  holds it) whose \<open>isPinned\<close> is true and whose channel is the selected channel, in
  ascending order of \<open>createdAt\<close>; \<open>getBookmarkedMessages\<close> returns exactly the messages
  whose \<open>isBookmarked\<close> is true, of whatever channel, in descending order of \<open>createdAt\<close>.
\<close>

theorem pinned_and_bookmarked:
  "mset (getPinnedMessages s)
     = filter_mset (\<lambda>m. isPinned m = Some True \<and> selectedChannelId s = Some (channelId m)) (mset (messages s))
   \<and> sorted (map createdAt (getPinnedMessages s))
   \<and> mset (getBookmarkedMessages s)
     = filter_mset (\<lambda>m. isBookmarked m = Some True) (mset (messages s))
   \<and> sorted (rev (map createdAt (getBookmarkedMessages s)))"
proof -
  have p: "getPinnedMessages s = sort_key createdAt
       (filter (\<lambda>m. truthy (isPinned m) \<and> Some (channelId m) = selectedChannelId s) (messages s))"
    by (simp add: getPinnedMessages_def Array_sort_asc)
  have b: "getBookmarkedMessages s = sort_key (\<lambda>m. - createdAt m)
       (filter (\<lambda>m. truthy (isBookmarked m)) (messages s))"
    by (simp add: getBookmarkedMessages_def Array_sort_desc)
  have 1: "mset (getPinnedMessages s)
     = filter_mset (\<lambda>m. isPinned m = Some True \<and> selectedChannelId s = Some (channelId m)) (mset (messages s))"
    unfolding p by (simp add: truthy_def eq_commute [of "Some _"])
  have 2: "sorted (map createdAt (getPinnedMessages s))"
    unfolding p by (rule sorted_sort_key)
  have 3: "mset (getBookmarkedMessages s)
     = filter_mset (\<lambda>m. isBookmarked m = Some True) (mset (messages s))"
    unfolding b by (simp add: truthy_def)
  have 4: "sorted (rev (map createdAt (getBookmarkedMessages s)))"
    unfolding b by (rule sorted_desc)
  from 1 2 3 4 show ?thesis by blast
qed

subsection \<open>Search\<close>

lemma String_includes_sublist: "String_includes s q = sublist q s"
  by (induction s) (simp_all add: sublist_Cons_right)

lemma dropWhile_all: "(\<forall>c\<in>set q. P c) \<Longrightarrow> dropWhile P q = []"
  by (induction q) auto

lemma trim_whitespace:
  assumes "\<forall>c\<in>set q. isWhiteSpace c"
  shows "trim q = []"
  by (simp only: trim_def dropWhile_all [OF assms] rev.simps dropWhile.simps)

lemma fold_push:
  "fold (\<lambda>m results. case g m of None \<Rightarrow> results | Some r \<Rightarrow> results @ [r]) ms acc
     = acc @ List.map_filter g ms"
  by (induction ms arbitrary: acc) (auto simp: List.map_filter_simps split: option.splits)

lemma search_fold:
  "fold (\<lambda>m results.
           if String_includes (lower (content m)) q
           then (case find (\<lambda>c. c_id c = channelId m) (channels state) of
                   None \<Rightarrow> results
                 | Some ch \<Rightarrow>
                     (case find (\<lambda>s. s_id s = serverId ch) (servers state) of
                        None \<Rightarrow> results
                      | Some sv \<Rightarrow> results @ [\<lparr>message = m, channel = ch, server = sv\<rparr>]))
           else results) ms acc
   = acc @ List.map_filter (\<lambda>m. if sublist q (lower (content m)) then resolve state m else None) ms"
proof -
  let ?g = "\<lambda>m. if sublist q (lower (content m)) then resolve state m else None"
  have "(\<lambda>m results.
           if String_includes (lower (content m)) q
           then (case find (\<lambda>c. c_id c = channelId m) (channels state) of
                   None \<Rightarrow> results
                 | Some ch \<Rightarrow>
                     (case find (\<lambda>s. s_id s = serverId ch) (servers state) of
                        None \<Rightarrow> results
                      | Some sv \<Rightarrow> results @ [\<lparr>message = m, channel = ch, server = sv\<rparr>]))
           else results)
        = (\<lambda>m results. case ?g m of None \<Rightarrow> results | Some r \<Rightarrow> results @ [r])"
    by (intro ext) (simp add: String_includes_sublist resolve_def split: option.splits)
  then show ?thesis by (simp only: fold_push)
qed

lemma getSearchResults_eq:
  "getSearchResults lower state =
     (if trim (lower (searchQuery state)) = [] then []
      else sort_key (\<lambda>r. - createdAt (message r))
             (List.map_filter
                (\<lambda>m. if sublist (trim (lower (searchQuery state))) (lower (content m))
                     then resolve state m else None)
                (messages state)))"
  using search_fold [of lower "trim (lower (searchQuery state))" state "messages state" "[]"]
  by (simp add: getSearchResults_def Let_def Array_sort_desc)

lemma mset_map_filter_message:
  assumes "\<And>m r. g m = Some r \<Longrightarrow> message r = m"
  shows "mset (map message (List.map_filter g ms)) = filter_mset (\<lambda>m. g m \<noteq> None) (mset ms)"
proof (induction ms)
  case Nil
  show ?case by (simp add: List.map_filter_simps)
next
  case (Cons m ms)
  show ?case
  proof (cases "g m")
    case None
    with Cons.IH show ?thesis by (simp add: List.map_filter_simps)
  next
    case (Some r)
    from assms [OF Some] have "message r = m" .
    with Some Cons.IH show ?thesis by (simp add: List.map_filter_simps)
  qed
qed

lemma resolve_SomeD:
  assumes "resolve state m = Some r"
  shows "message r = m"
    and "find (\<lambda>c. c_id c = channelId m) (channels state) = Some (channel r)"
    and "find (\<lambda>x. s_id x = serverId (channel r)) (servers state) = Some (server r)"
proof -
  from assms obtain ch sv where c: "find (\<lambda>c. c_id c = channelId m) (channels state) = Some ch"
    and v: "find (\<lambda>x. s_id x = serverId ch) (servers state) = Some sv"
    and r: "r = \<lparr>message = m, channel = ch, server = sv\<rparr>"
    unfolding resolve_def by (simp split: option.splits)
  from r show "message r = m" by simp
  from r c show "find (\<lambda>c. c_id c = channelId m) (channels state) = Some (channel r)" by simp
  from r v show "find (\<lambda>x. s_id x = serverId (channel r)) (servers state) = Some (server r)" by simp
qed

text \<open>
  Claim C6. Let the query be the store's search query, lowered and trimmed. When it is
  empty, and so when the search query has only white space (which lowering leaves as it
  is), the result is empty. Otherwise the messages of the results are exactly the
  messages of the store (each as often as the store holds it) whose lowered content
  contains the query as a run of consecutive code units and whose channel and server are
  found; tags and names play no part. Every result carries, with its message, the
  first channel that has the message's \<open>channelId\<close> and the first server that has that
  channel's \<open>serverId\<close>. The results are in descending order of \<open>createdAt\<close>. All this
  holds for whatever function lowers the strings.
\<close>

theorem getSearchResults_spec:
  fixes lower :: "jsstring \<Rightarrow> jsstring"
  defines "q \<equiv> (\<lambda>s. trim (lower (searchQuery s)))"
  shows
    "(q s = [] \<longrightarrow> getSearchResults lower s = [])
     \<and> ((\<forall>c\<in>set (searchQuery s). isWhiteSpace c) \<and> lower (searchQuery s) = searchQuery s
          \<longrightarrow> getSearchResults lower s = [])
     \<and> (q s \<noteq> [] \<longrightarrow>
          mset (map message (getSearchResults lower s))
            = filter_mset
                (\<lambda>m. sublist (q s) (lower (content m))
                      \<and> (\<exists>ch sv. find (\<lambda>c. c_id c = channelId m) (channels s) = Some ch
                                 \<and> find (\<lambda>x. s_id x = serverId ch) (servers s) = Some sv))
                (mset (messages s)))
     \<and> (\<forall>r\<in>set (getSearchResults lower s).
          find (\<lambda>c. c_id c = channelId (message r)) (channels s) = Some (channel r)
          \<and> find (\<lambda>x. s_id x = serverId (channel r)) (servers s) = Some (server r))
     \<and> sorted (rev (map (\<lambda>r. createdAt (message r)) (getSearchResults lower s)))"
proof -
  let ?g = "\<lambda>m. if sublist (q s) (lower (content m)) then resolve s m else None"
  have eq: "getSearchResults lower s =
      (if q s = [] then [] else sort_key (\<lambda>r. - createdAt (message r)) (List.map_filter ?g (messages s)))"
    unfolding q_def by (rule getSearchResults_eq)
  have 1: "q s = [] \<longrightarrow> getSearchResults lower s = []"
    by (simp add: eq)
  have 2: "(\<forall>c\<in>set (searchQuery s). isWhiteSpace c) \<and> lower (searchQuery s) = searchQuery s
          \<longrightarrow> getSearchResults lower s = []"
    using trim_whitespace [of "searchQuery s"] by (auto simp: eq q_def)
  have g: "\<And>m r. ?g m = Some r \<Longrightarrow> message r = m"
    by (auto dest: resolve_SomeD(1) split: if_splits)
  have gn: "\<And>m. (?g m \<noteq> None) = (sublist (q s) (lower (content m))
                      \<and> (\<exists>ch sv. find (\<lambda>c. c_id c = channelId m) (channels s) = Some ch
                                 \<and> find (\<lambda>x. s_id x = serverId ch) (servers s) = Some sv))"
    by (auto simp: resolve_def split: option.splits)
  have 3: "q s \<noteq> [] \<longrightarrow>
          mset (map message (getSearchResults lower s))
            = filter_mset
                (\<lambda>m. sublist (q s) (lower (content m))
                      \<and> (\<exists>ch sv. find (\<lambda>c. c_id c = channelId m) (channels s) = Some ch
                                 \<and> find (\<lambda>x. s_id x = serverId ch) (servers s) = Some sv))
                (mset (messages s))"
  proof
    assume ne: "q s \<noteq> []"
    have "mset (map message (getSearchResults lower s)) = mset (map message (List.map_filter ?g (messages s)))"
      using ne by (simp add: eq)
    also have "\<dots> = filter_mset (\<lambda>m. ?g m \<noteq> None) (mset (messages s))"
      using g by (rule mset_map_filter_message)
    finally show "mset (map message (getSearchResults lower s))
            = filter_mset
                (\<lambda>m. sublist (q s) (lower (content m))
                      \<and> (\<exists>ch sv. find (\<lambda>c. c_id c = channelId m) (channels s) = Some ch
                                 \<and> find (\<lambda>x. s_id x = serverId ch) (servers s) = Some sv))
                (mset (messages s))"
      by (simp only: gn)
  qed
  have 4: "\<forall>r\<in>set (getSearchResults lower s).
          find (\<lambda>c. c_id c = channelId (message r)) (channels s) = Some (channel r)
          \<and> find (\<lambda>x. s_id x = serverId (channel r)) (servers s) = Some (server r)"
  proof
    fix r assume "r \<in> set (getSearchResults lower s)"
    then have "r \<in> set (List.map_filter ?g (messages s))"
      by (auto simp: eq split: if_splits)
    then obtain m where "?g m = Some r"
      by (auto simp: List.map_filter_def)
    then have "resolve s m = Some r" by (auto split: if_splits)
    from resolve_SomeD [OF this]
    show "find (\<lambda>c. c_id c = channelId (message r)) (channels s) = Some (channel r)
          \<and> find (\<lambda>x. s_id x = serverId (channel r)) (servers s) = Some (server r)"
      by simp
  qed
  have 5: "sorted (rev (map (\<lambda>r. createdAt (message r)) (getSearchResults lower s)))"
  proof (cases "q s = []")
    case True
    then show ?thesis by (simp add: eq)
  next
    case False
    then show ?thesis
      unfolding eq using sorted_desc [of "\<lambda>r. createdAt (message r)"] by simp
  qed
  from 1 2 3 4 5 show ?thesis by blast
qed

text \<open>
  On the example store, with the lowering of ASCII letters: the query \<^verbatim>\<open>" HI "\<close> becomes
  \<^verbatim>\<open>hi\<close>; of the four messages that contain it, \<^verbatim>\<open>m4\<close> (its channel's server is not there)
  and \<^verbatim>\<open>m5\<close> (its channel is not there) are left out, and \<^verbatim>\<open>m1\<close> (created at 30) comes before
  \<^verbatim>\<open>m2\<close> (created at 10). A query of two spaces finds nothing.
\<close>

theorem getSearchResults_spec_witness:
  "trim (toLowerCase (searchQuery example_store)) = js ''hi''
   \<and> map (\<lambda>r. (m_id (message r), c_id (channel r), s_id (server r)))
        (getSearchResults toLowerCase example_store)
       = [(js ''m1'', js ''c1'', js ''s1''), (js ''m2'', js ''c2'', js ''s2'')]
   \<and> sorted (rev (map (\<lambda>r. createdAt (message r)) (getSearchResults toLowerCase example_store)))
   \<and> list_all isWhiteSpace (js ''  '')
   \<and> getSearchResults toLowerCase (example_store\<lparr>searchQuery := js ''  ''\<rparr>) = []"
proof -
  have q: "trim (toLowerCase (searchQuery example_store)) = js ''hi''" by code_simp
  have r: "map (\<lambda>r. (m_id (message r), c_id (channel r), s_id (server r)))
        (getSearchResults toLowerCase example_store)
       = [(js ''m1'', js ''c1'', js ''s1''), (js ''m2'', js ''c2'', js ''s2'')]"
    by code_simp
  from getSearchResults_spec [of toLowerCase example_store]
  have s: "sorted (rev (map (\<lambda>r. createdAt (message r)) (getSearchResults toLowerCase example_store)))"
    by blast
  have w: "list_all isWhiteSpace (js ''  '')" by code_simp
  have l: "toLowerCase (js ''  '') = js ''  ''" by code_simp
  from w l have h: "(\<forall>c\<in>set (searchQuery (example_store\<lparr>searchQuery := js ''  ''\<rparr>)). isWhiteSpace c)
      \<and> toLowerCase (searchQuery (example_store\<lparr>searchQuery := js ''  ''\<rparr>))
          = searchQuery (example_store\<lparr>searchQuery := js ''  ''\<rparr>)"
    by (simp add: list_all_iff)
  from getSearchResults_spec [of toLowerCase "example_store\<lparr>searchQuery := js ''  ''\<rparr>"] h
  have e: "getSearchResults toLowerCase (example_store\<lparr>searchQuery := js ''  ''\<rparr>) = []"
    by blast
  from q r s w e show ?thesis by blast
qed

section \<open>Properties of persistence\<close>

text \<open>
  Claim C9. \<open>importData\<close> resolves exactly when the file is read, its text parses and the
  parsed value has the three collection fields, whatever they hold; it then resolves with
  the parsed value and has handed it to \<open>saveData\<close>, so that storage holds its
  serialization when the quota admits it. Whenever it rejects, storage is as it was.
\<close>

theorem importData_spec:
  "(\<forall>result d. file = Some result \<and> JSON_parse result = Inr (JsonObject d) \<and> has_collections d
      \<longrightarrow> importData JSON_parse JSON_stringify file ls = (Inr d, saveData JSON_stringify d ls)
          \<and> (length (JSON_stringify d) \<le> quota ls
               \<longrightarrow> item (snd (importData JSON_parse JSON_stringify file ls)) = Some (JSON_stringify d)))
   \<and> ((\<exists>d. fst (importData JSON_parse JSON_stringify file ls) = Inr d)
        \<longleftrightarrow> (\<exists>result d. file = Some result \<and> JSON_parse result = Inr (JsonObject d) \<and> has_collections d))
   \<and> (isl (fst (importData JSON_parse JSON_stringify file ls))
        \<longrightarrow> snd (importData JSON_parse JSON_stringify file ls) = ls)"
proof -
  have 1: "\<forall>result d. file = Some result \<and> JSON_parse result = Inr (JsonObject d) \<and> has_collections d
      \<longrightarrow> importData JSON_parse JSON_stringify file ls = (Inr d, saveData JSON_stringify d ls)
          \<and> (length (JSON_stringify d) \<le> quota ls
               \<longrightarrow> item (snd (importData JSON_parse JSON_stringify file ls)) = Some (JSON_stringify d))"
    by (simp add: importData_def has_collections_def saveData_def setItem_def)
  have 2: "(\<exists>d. fst (importData JSON_parse JSON_stringify file ls) = Inr d)
        \<longleftrightarrow> (\<exists>result d. file = Some result \<and> JSON_parse result = Inr (JsonObject d) \<and> has_collections d)"
    by (auto simp: importData_def has_collections_def
          split: option.splits sum.splits JsonValue.splits if_splits)
  have 3: "isl (fst (importData JSON_parse JSON_stringify file ls))
        \<longrightarrow> snd (importData JSON_parse JSON_stringify file ls) = ls"
    by (auto simp: importData_def split: option.splits sum.splits JsonValue.splits if_splits)
  from 1 2 3 show ?thesis by blast
qed

text \<open>
  With the example parser and a storage that holds \<^verbatim>\<open>old\<close>: the snapshot whose message
  names a missing channel is imported and stored; the object without \<^verbatim>\<open>messages\<close>, the
  text that does not parse and the failed read are rejected and leave \<^verbatim>\<open>old\<close> in storage.
\<close>

theorem importData_spec_witness:
  "example_parse (js ''snapshot'') = Inr (JsonObject example_data)
   \<and> has_collections example_data
   \<and> length (example_stringify example_data) \<le> 100
   \<and> importData example_parse example_stringify (Some (js ''snapshot'')) \<lparr>item = Some (js ''old''), quota = 100\<rparr>
       = (Inr example_data, \<lparr>item = Some (js ''snapshot''), quota = 100\<rparr>)
   \<and> importData example_parse example_stringify (Some (js ''partial'')) \<lparr>item = Some (js ''old''), quota = 100\<rparr>
       = (Inl InvalidFormat, \<lparr>item = Some (js ''old''), quota = 100\<rparr>)
   \<and> importData example_parse example_stringify (Some (js ''{'')) \<lparr>item = Some (js ''old''), quota = 100\<rparr>
       = (Inl SyntaxError, \<lparr>item = Some (js ''old''), quota = 100\<rparr>)
   \<and> importData example_parse example_stringify None \<lparr>item = Some (js ''old''), quota = 100\<rparr>
       = (Inl FileReadError, \<lparr>item = Some (js ''old''), quota = 100\<rparr>)"
proof -
  let ?ls = "\<lparr>item = Some (js ''old''), quota = 100\<rparr>"
  have p: "example_parse (js ''snapshot'') = Inr (JsonObject example_data)" by code_simp
  have c: "has_collections example_data" by code_simp
  have l: "length (example_stringify example_data) \<le> 100" by code_simp
  have s: "example_stringify example_data = js ''snapshot''" by code_simp
  from importData_spec [of "Some (js ''snapshot'')" example_parse example_stringify ?ls] p c l
  have a: "importData example_parse example_stringify (Some (js ''snapshot'')) ?ls
             = (Inr example_data, saveData example_stringify example_data ?ls)"
    by auto
  have v: "saveData example_stringify example_data ?ls = \<lparr>item = Some (js ''snapshot''), quota = 100\<rparr>"
    using l s by (simp add: saveData_def setItem_def)
  have b: "importData example_parse example_stringify (Some (js ''partial'')) ?ls = (Inl InvalidFormat, ?ls)"
    by code_simp
  have d: "importData example_parse example_stringify (Some (js ''{'')) ?ls = (Inl SyntaxError, ?ls)"
    by code_simp
  have e: "importData example_parse example_stringify None ?ls = (Inl FileReadError, ?ls)"
    by (simp add: importData_def)
  from p c l a v b d e show ?thesis by simp
qed

text \<open>
  Claim C8, as the code has it. With nothing under the key, or the empty string,
  \<open>loadData\<close> returns the default data and has handed it to \<open>saveData\<close>. When the stored
  text does not parse, or parses to \<^verbatim>\<open>null\<close>, it returns the default data and leaves
  storage as it was: the default is not persisted. When the text parses to any other
  value, \<open>loadData\<close> returns that value, also when collection fields are missing from it;
  a version below the current one is replaced and the value saved again. \<open>loadData\<close>
  returns in every case: what its \<^verbatim>\<open>try\<close> block throws is caught.
\<close>

theorem loadData_cases:
  "(item ls = None \<or> item ls = Some []
      \<longrightarrow> loadData JSON_parse JSON_stringify now ls
            = (getDefaultData now, saveData JSON_stringify (getDefaultData now) ls))
   \<and> (\<forall>raw. item ls = Some raw \<and> raw \<noteq> [] \<and> (isl (JSON_parse raw) \<or> JSON_parse raw = Inr JsonNull)
      \<longrightarrow> loadData JSON_parse JSON_stringify now ls = (getDefaultData now, ls))
   \<and> (\<forall>raw d. item ls = Some raw \<and> raw \<noteq> [] \<and> JSON_parse raw = Inr (JsonObject d)
        \<and> (\<forall>v. data_version d = Some v \<longrightarrow> CURRENT_VERSION \<le> v)
      \<longrightarrow> loadData JSON_parse JSON_stringify now ls = (d, ls))
   \<and> (\<forall>raw d v. item ls = Some raw \<and> raw \<noteq> [] \<and> JSON_parse raw = Inr (JsonObject d)
        \<and> data_version d = Some v \<and> v < CURRENT_VERSION
      \<longrightarrow> loadData JSON_parse JSON_stringify now ls
            = (d\<lparr>data_version := Some CURRENT_VERSION\<rparr>,
               saveData JSON_stringify (d\<lparr>data_version := Some CURRENT_VERSION\<rparr>) ls))"
proof -
  have 1: "item ls = None \<or> item ls = Some []
      \<longrightarrow> loadData JSON_parse JSON_stringify now ls
            = (getDefaultData now, saveData JSON_stringify (getDefaultData now) ls)"
    by (auto simp: loadData_def loadData_try_def getItem_def Let_def)
  have 2: "\<forall>raw. item ls = Some raw \<and> raw \<noteq> [] \<and> (isl (JSON_parse raw) \<or> JSON_parse raw = Inr JsonNull)
      \<longrightarrow> loadData JSON_parse JSON_stringify now ls = (getDefaultData now, ls)"
    by (auto simp: loadData_def loadData_try_def getItem_def Let_def isl_def)
  have 3: "\<forall>raw d. item ls = Some raw \<and> raw \<noteq> [] \<and> JSON_parse raw = Inr (JsonObject d)
        \<and> (\<forall>v. data_version d = Some v \<longrightarrow> CURRENT_VERSION \<le> v)
      \<longrightarrow> loadData JSON_parse JSON_stringify now ls = (d, ls)"
    by (auto simp: loadData_def loadData_try_def getItem_def Let_def split: option.splits)
  have 4: "\<forall>raw d v. item ls = Some raw \<and> raw \<noteq> [] \<and> JSON_parse raw = Inr (JsonObject d)
        \<and> data_version d = Some v \<and> v < CURRENT_VERSION
      \<longrightarrow> loadData JSON_parse JSON_stringify now ls
            = (d\<lparr>data_version := Some CURRENT_VERSION\<rparr>,
               saveData JSON_stringify (d\<lparr>data_version := Some CURRENT_VERSION\<rparr>) ls)"
    by (auto simp: loadData_def loadData_try_def getItem_def Let_def)
  from 1 2 3 4 show ?thesis by blast
qed

text \<open>
  With the example parser: storage that holds the text \<^verbatim>\<open>{\<close> still holds it after
  \<open>loadData\<close> has returned the default data; storage that holds an object without the
  \<^verbatim>\<open>messages\<close> field yields that object, not the default data; storage that holds a
  snapshot yields the snapshot; a snapshot of version 0 comes back with version 1 and is
  stored again; and with nothing stored the default data is returned and stored, unless
  the quota refuses it.
\<close>

theorem loadData_cases_witness:
  "isl (example_parse (js ''{''))
   \<and> loadData example_parse example_stringify 5 \<lparr>item = Some (js ''{''), quota = 100\<rparr>
       = (getDefaultData 5, \<lparr>item = Some (js ''{''), quota = 100\<rparr>)
   \<and> example_parse (js ''partial'') = Inr (JsonObject partial_data)
   \<and> data_messages partial_data = None
   \<and> loadData example_parse example_stringify 5 \<lparr>item = Some (js ''partial''), quota = 100\<rparr>
       = (partial_data, \<lparr>item = Some (js ''partial''), quota = 100\<rparr>)
   \<and> loadData example_parse example_stringify 5 \<lparr>item = Some (js ''snapshot''), quota = 100\<rparr>
       = (example_data, \<lparr>item = Some (js ''snapshot''), quota = 100\<rparr>)
   \<and> loadData example_parse example_stringify 5 \<lparr>item = Some (js ''v0''), quota = 100\<rparr>
       = (example_data, \<lparr>item = Some (js ''snapshot''), quota = 100\<rparr>)
   \<and> loadData example_parse example_stringify 5 \<lparr>item = None, quota = 100\<rparr>
       = (getDefaultData 5, \<lparr>item = Some (js ''other''), quota = 100\<rparr>)
   \<and> loadData example_parse example_stringify 5 \<lparr>item = None, quota = 3\<rparr>
       = (getDefaultData 5, \<lparr>item = None, quota = 3\<rparr>)"
proof -
  have a: "isl (example_parse (js ''{''))" by code_simp
  have n: "js ''{'' \<noteq> []" by (simp add: js_def)
  from loadData_cases [of "\<lparr>item = Some (js ''{''), quota = 100\<rparr>" example_parse example_stringify 5] a n
  have 1: "loadData example_parse example_stringify 5 \<lparr>item = Some (js ''{''), quota = 100\<rparr>
       = (getDefaultData 5, \<lparr>item = Some (js ''{''), quota = 100\<rparr>)"
    by simp
  have b: "example_parse (js ''partial'') = Inr (JsonObject partial_data)" by code_simp
  have m: "data_messages partial_data = None" by (simp add: partial_data_def)
  have v: "\<forall>v. data_version partial_data = Some v \<longrightarrow> CURRENT_VERSION \<le> v"
    by (simp add: partial_data_def)
  have n2: "js ''partial'' \<noteq> []" by (simp add: js_def)
  from loadData_cases [of "\<lparr>item = Some (js ''partial''), quota = 100\<rparr>" example_parse example_stringify 5] b v n2
  have 2: "loadData example_parse example_stringify 5 \<lparr>item = Some (js ''partial''), quota = 100\<rparr>
       = (partial_data, \<lparr>item = Some (js ''partial''), quota = 100\<rparr>)"
    by simp
  have 3: "loadData example_parse example_stringify 5 \<lparr>item = Some (js ''snapshot''), quota = 100\<rparr>
       = (example_data, \<lparr>item = Some (js ''snapshot''), quota = 100\<rparr>)"
    by code_simp
  have 4: "loadData example_parse example_stringify 5 \<lparr>item = Some (js ''v0''), quota = 100\<rparr>
       = (example_data, \<lparr>item = Some (js ''snapshot''), quota = 100\<rparr>)"
    by code_simp
  have s: "example_stringify (getDefaultData 5) = js ''other''" by code_simp
  from loadData_cases [of "\<lparr>item = None, quota = 100\<rparr>" example_parse example_stringify 5] s
  have 5: "loadData example_parse example_stringify 5 \<lparr>item = None, quota = 100\<rparr>
       = (getDefaultData 5, \<lparr>item = Some (js ''other''), quota = 100\<rparr>)"
    by (simp add: saveData_def setItem_def js_def)
  from loadData_cases [of "\<lparr>item = None, quota = 3\<rparr>" example_parse example_stringify 5] s
  have 6: "loadData example_parse example_stringify 5 \<lparr>item = None, quota = 3\<rparr>
       = (getDefaultData 5, \<lparr>item = None, quota = 3\<rparr>)"
    by (simp add: saveData_def setItem_def js_def)
  from a 1 b m 2 3 4 5 6 show ?thesis by simp
qed

end
